theory Spec2Isabelle
  imports Complex_Main "HOL-Library.AList"
begin

section \<open>Token values and their string conversion\<close>

text \<open>
  The token compiler \<^verbatim>\<open>scripts/generate-rules.js\<close> reads token values from JSON.
  A parsed JSON value is a string, a number, a boolean, \<^verbatim>\<open>null\<close>, an array or an
  object; an object is kept as the list of its own properties in \<^verbatim>\<open>Object.entries\<close>
  order. Numbers are the integer-valued ones (\<open>VNum n\<close> stands for the double \<open>n\<close>, for
  \<open>\<bar>n\<bar> \<le> 2\<^sup>5\<^sup>3\<close>, where every integer is a double and \<^verbatim>\<open>String(n)\<close> is its decimal
  numeral). Characters are UTF-16 code units below 256.

  Two more kinds of value come out of a lookup, which is a plain object and so answers
  for the names every object inherits: a built-in function (\<open>VFun\<close>, with its name) and
  the object \<^verbatim>\<open>Object.prototype\<close> itself.
\<close>

datatype jsval =
    VStr string
  | VNum int
  | VBool bool
  | VNull
  | VArr "jsval list"
  | VObj "(string \<times> jsval) list"
  | VFun string
  | VObjectPrototype

definition digitChar :: "nat \<Rightarrow> char" where
  "digitChar d = ''0123456789'' ! d"

fun natToString :: "nat \<Rightarrow> string" where
  "natToString n =
     (if n < 10 then [digitChar n] else natToString (n div 10) @ [digitChar (n mod 10)])"

declare natToString.simps [simp del]

definition numToString :: "int \<Rightarrow> string" where
  "numToString i = (if i < 0 then CHR ''-'' # natToString (nat (- i)) else natToString (nat i))"

text \<open>\<^verbatim>\<open>Array.prototype.join\<close> on strings: the separator stands between the elements.\<close>

fun joinWith :: "string \<Rightarrow> string list \<Rightarrow> string" where
  "joinWith sep [] = []"
| "joinWith sep [x] = x"
| "joinWith sep (x # y # ys) = x @ sep @ joinWith sep (y # ys)"

text \<open>
  \<^verbatim>\<open>String(v)\<close>: a string is itself, an array is its elements joined by a comma
  (\<^verbatim>\<open>null\<close> elements as the empty string), any other object is \<^verbatim>\<open>[object Object]\<close>,
  a built-in function is the text the engine gives for its source. An object with an
  own property \<^verbatim>\<open>toString\<close> has no such text (\<^verbatim>\<open>String\<close> raises a \<^verbatim>\<open>TypeError\<close>
  there); \<open>stringable\<close>, further down, says where \<open>toStr\<close> is \<^verbatim>\<open>String\<close>.
\<close>

fun toStr :: "jsval \<Rightarrow> string" where
  "toStr (VStr s) = s"
| "toStr (VNum n) = numToString n"
| "toStr (VBool b) = (if b then ''true'' else ''false'')"
| "toStr VNull = ''null''"
| "toStr (VArr xs) =
     joinWith '','' (map (\<lambda>x. if x = VNull then [] else toStr x) xs)"
| "toStr (VObj kvs) = ''[object Object]''"
| "toStr (VFun name) = ''function '' @ name @ ''() { [native code] }''"
| "toStr VObjectPrototype = ''[object Object]''"

section \<open>The reference resolver\<close>

text \<open>
  A lookup is read only as \<^verbatim>\<open>refMap[ref]\<close>, so it is kept as that reading: \<open>None\<close> is
  \<^verbatim>\<open>undefined\<close>.
\<close>

type_synonym refmap = "string \<rightharpoonup> jsval"

record token =
  path :: "string list"
  val :: jsval
  type :: "string option"
  mode :: "string option"

text \<open>
  What a plain object \<^verbatim>\<open>{}\<close> answers for a name it has no own property of: the
  properties of \<^verbatim>\<open>Object.prototype\<close>. Eleven are built-in functions; \<^verbatim>\<open>__proto__\<close> is an
  accessor, whose getter returns the prototype of the object, \<^verbatim>\<open>Object.prototype\<close>.
\<close>

definition inheritedFunctions :: "string list" where
  "inheritedFunctions =
     [''__defineGetter__'', ''__defineSetter__'', ''hasOwnProperty'', ''__lookupGetter__'',
      ''__lookupSetter__'', ''isPrototypeOf'', ''propertyIsEnumerable'', ''toString'',
      ''valueOf'', ''toLocaleString'']"

definition objectPrototype :: refmap where
  "objectPrototype name =
     (if name = ''__proto__'' then Some VObjectPrototype
      else if name = ''constructor'' then Some (VFun ''Object'')
      else if name \<in> set inheritedFunctions then Some (VFun name)
      else None)"

text \<open>The reading of a plain object with the given own properties.\<close>

definition plainObject :: "refmap \<Rightarrow> refmap" where
  "plainObject own = objectPrototype ++ own"

text \<open>The key of a token in a lookup.\<close>

definition refKey :: "token \<Rightarrow> string" where
  "refKey t = joinWith ''.'' (path t)"

text \<open>
  \<^verbatim>\<open>buildRefMap\<close>. Its loop (\<open>refEntries\<close>) gives the object its own properties:
  \<^verbatim>\<open>map[t.path.join('.')] = t.$value\<close> for each token in turn, a later token with the
  same joined path replacing the earlier one. The assignment to the name \<^verbatim>\<open>__proto__\<close>
  goes to the setter of the accessor and creates no property. (That setter makes an
  assigned object or \<^verbatim>\<open>null\<close> the prototype of the lookup; the model keeps the
  prototype \<^verbatim>\<open>Object.prototype\<close>, and \<open>plainTokens\<close>, further down, says where that is
  right.)
\<close>

definition refEntries :: "token list \<Rightarrow> refmap" where
  "refEntries allTokens =
     fold (\<lambda>t m. if refKey t = ''__proto__'' then m else m(refKey t \<mapsto> val t))
       allTokens Map.empty"

definition buildRefMap :: "token list \<Rightarrow> refmap" where
  "buildRefMap allTokens = plainObject (refEntries allTokens)"

text \<open>
  The matches of \<^verbatim>\<open>/\{([^}]+)\}/g\<close> in a string, from left to right: at an opening
  brace the greedy class takes every character up to the next closing brace; the match
  needs at least one such character and the closing brace. Text outside the matches is
  kept character by character.
\<close>

datatype seg = Lit string | Ref string

function splitRefs :: "string \<Rightarrow> seg list" where
  "splitRefs [] = []"
| "splitRefs (c # cs) =
     (let body = takeWhile (\<lambda>x. x \<noteq> CHR ''}'') cs;
          rest = dropWhile (\<lambda>x. x \<noteq> CHR ''}'') cs
      in if c = CHR ''{'' \<and> body \<noteq> [] \<and> rest \<noteq> []
         then Ref body # splitRefs (tl rest)
         else Lit [c] # splitRefs cs)"
  by pat_completeness auto
termination
proof (relation "measure length")
  show "wf (measure length)" by simp
next
  fix c :: char and cs body rest :: string
  assume "rest = dropWhile (\<lambda>x. x \<noteq> CHR ''}'') cs"
  moreover have "length (dropWhile (\<lambda>x. x \<noteq> CHR ''}'') cs) \<le> length cs"
    by (rule length_dropWhile_le)
  ultimately have "length (tl rest) \<le> length cs" by simp
  then show "(tl rest, c # cs) \<in> measure length" by simp
next
  fix c :: char and cs :: string
  show "(cs, c # cs) \<in> measure length" by simp
qed

declare splitRefs.simps(2) [simp del]

text \<open>
  The template \<^verbatim>\<open>`{${ref}}`\<close>, and the text of the warning \<^verbatim>\<open>console.warn\<close> prints
  for an unresolved reference.
\<close>

definition aliasText :: "string \<Rightarrow> string" where
  "aliasText ref = CHR ''{'' # ref @ ''}''"

definition unresolvedWarning :: "string \<Rightarrow> string" where
  "unresolvedWarning ref = ''  Warning: unresolved reference '' @ aliasText ref"

text \<open>
  The results of the callbacks of one \<^verbatim>\<open>replace\<close>, put together in order: the
  replaced text and the warnings printed on the way. A callback that does not return
  leaves the whole call without a result.
\<close>

fun collect :: "(string \<times> string list) option list \<Rightarrow> (string \<times> string list) option" where
  "collect [] = Some ([], [])"
| "collect (None # rest) = None"
| "collect (Some (s, w) # rest) =
     (case collect rest of None \<Rightarrow> None | Some (s', w') \<Rightarrow> Some (s @ s', w @ w'))"

text \<open>
  \<^verbatim>\<open>resolveRefs\<close> on a string, and the callback it gives to \<^verbatim>\<open>replace\<close>
  (\<open>resolveSeg\<close>: text outside a match stays, a match is looked up). The recursion of
  the source has no bound, so the model carries the depth of calls still allowed:
  \<open>None\<close> says that this depth was not enough. The result is the resolved string with
  the warnings printed.
\<close>

fun resolveStr :: "nat \<Rightarrow> refmap \<Rightarrow> string \<Rightarrow> (string \<times> string list) option"
  and resolveSeg :: "nat \<Rightarrow> refmap \<Rightarrow> seg \<Rightarrow> (string \<times> string list) option" where
  "resolveStr 0 refMap s = None"
| "resolveStr (Suc n) refMap s = collect (map (resolveSeg n refMap) (splitRefs s))"
| "resolveSeg n refMap (Lit t) = Some (t, [])"
| "resolveSeg n refMap (Ref ref) =
     (case refMap ref of
        None \<Rightarrow> Some (aliasText ref, [unresolvedWarning ref])
      | Some resolved \<Rightarrow> resolveStr n refMap (toStr resolved))"

definition resolveRefs :: "nat \<Rightarrow> refmap \<Rightarrow> jsval \<Rightarrow> (jsval \<times> string list) option" where
  "resolveRefs n refMap v =
     (case v of
        VStr s \<Rightarrow> map_option (\<lambda>(r, w). (VStr r, w)) (resolveStr n refMap s)
      | _ \<Rightarrow> (if n = 0 then None else Some (v, [])))"

text \<open>
  The match of \<^verbatim>\<open>/^\{([^}]+)\}$/\<close>: the whole string is one reference.
\<close>

definition fullRefMatch :: "string \<Rightarrow> string option" where
  "fullRefMatch s =
     (case s of
        [] \<Rightarrow> None
      | c # cs \<Rightarrow>
          if c = CHR ''{'' \<and> cs \<noteq> [] \<and> last cs = CHR ''}'' \<and> butlast cs \<noteq> []
             \<and> CHR ''}'' \<notin> set (butlast cs)
          then Some (butlast cs) else None)"

text \<open>
  The resolved fields of a composite, in order, with the warnings of each. The copy of
  a composite starts as \<^verbatim>\<open>{}\<close>, and \<^verbatim>\<open>resolved[k] = ...\<close> gives it one property for
  each field, except for the key \<^verbatim>\<open>__proto__\<close>: that assignment goes to the setter of
  the accessor and creates no property, though the field is resolved like the others.
  (The setter makes an assigned object, function or \<^verbatim>\<open>null\<close> the prototype of the copy;
  the model keeps a copy as its own properties, and \<open>plainTokens\<close>, further down, says
  where nothing more is needed.) \<^verbatim>\<open>Object.prototype\<close> has no entries, so
  its copy is the empty object; a function is returned as it is.
\<close>

fun collectFields ::
  "(string \<times> (jsval \<times> string list) option) list \<Rightarrow> ((string \<times> jsval) list \<times> string list) option" where
  "collectFields [] = Some ([], [])"
| "collectFields ((k, None) # rest) = None"
| "collectFields ((k, Some (v, w)) # rest) =
     (case collectFields rest of None \<Rightarrow> None | Some (kvs, w') \<Rightarrow> Some ((k, v) # kvs, w @ w'))"

fun deepResolveRefs :: "nat \<Rightarrow> refmap \<Rightarrow> jsval \<Rightarrow> (jsval \<times> string list) option" where
  "deepResolveRefs 0 refMap v = None"
| "deepResolveRefs (Suc n) refMap (VStr s) =
     (case fullRefMatch s of
        Some ref \<Rightarrow>
          (case refMap ref of
             None \<Rightarrow> Some (VStr s, [unresolvedWarning ref])
           | Some resolved \<Rightarrow> deepResolveRefs n refMap resolved)
      | None \<Rightarrow> resolveRefs (Suc n) refMap (VStr s))"
| "deepResolveRefs (Suc n) refMap (VObj kvs) =
     (case collectFields (map (\<lambda>kv. (fst kv, deepResolveRefs (Suc n) refMap (snd kv))) kvs) of
        None \<Rightarrow> None
      | Some (resolved, w) \<Rightarrow>
          Some (VObj (filter (\<lambda>kv. fst kv \<noteq> ''__proto__'') resolved), w))"
| "deepResolveRefs (Suc n) refMap VObjectPrototype = Some (VObj [], [])"
| "deepResolveRefs (Suc n) refMap v = Some (v, [])"


section \<open>The three-tier pipeline\<close>

text \<open>
  \<^verbatim>\<open>resolveTierTokens\<close>: every token of a tier with its value resolved against the
  lookup, the other fields as they were.
\<close>

fun resolveTierTokens :: "nat \<Rightarrow> token list \<Rightarrow> refmap \<Rightarrow> (token list \<times> string list) option" where
  "resolveTierTokens n [] refMap = Some ([], [])"
| "resolveTierTokens n (t # ts) refMap =
     (case deepResolveRefs n refMap (val t) of
        None \<Rightarrow> None
      | Some (v, w) \<Rightarrow>
          (case resolveTierTokens n ts refMap of
             None \<Rightarrow> None
           | Some (ts', w') \<Rightarrow> Some (t\<lparr>val := v\<rparr> # ts', w @ w')))"

text \<open>
  The first part of \<^verbatim>\<open>buildThreeTierGenerators\<close>, on the token lists that
  \<^verbatim>\<open>loadTierTokens\<close> returns for the three directories: the lookups and the resolved
  tiers. The lookup for the component tier, \<^verbatim>\<open>{ ...primitiveRefMap, ...buildRefMap(resolvedSemantic) }\<close>,
  is a new plain object with the own properties of the two, those of the second
  replacing those of the first.
\<close>

record tiers =
  primitiveRefMap :: refmap
  resolvedSemantic :: "token list"
  semanticRefMap :: refmap
  resolvedComponent :: "token list"
  allResolved :: "token list"

definition resolveThreeTier ::
  "nat \<Rightarrow> token list \<Rightarrow> token list \<Rightarrow> token list \<Rightarrow> (tiers \<times> string list) option" where
  "resolveThreeTier n primitiveTokens rawSemanticTokens rawComponentTokens =
     (case resolveTierTokens n rawSemanticTokens (buildRefMap primitiveTokens) of
        None \<Rightarrow> None
      | Some (semR, w1) \<Rightarrow>
          (case resolveTierTokens n rawComponentTokens
                  (plainObject (refEntries primitiveTokens ++ refEntries semR)) of
             None \<Rightarrow> None
           | Some (compR, w2) \<Rightarrow>
               Some (\<lparr>primitiveRefMap = buildRefMap primitiveTokens,
                      resolvedSemantic = semR,
                      semanticRefMap = plainObject (refEntries primitiveTokens ++ refEntries semR),
                      resolvedComponent = compR,
                      allResolved = semR @ compR\<rparr>, w1 @ w2)))"

section \<open>Declaration lines and the dual-theme collapse\<close>


text \<open>
  The characters \<^verbatim>\<open>\s\<close> matches, and the line terminators, which \<^verbatim>\<open>.\<close> does not
  match.
\<close>

definition isSpaceJs :: "char \<Rightarrow> bool" where
  "isSpaceJs c =
     (c \<in> set [CHR 0x09, CHR 0x0A, CHR 0x0B, CHR 0x0C, CHR 0x0D, CHR 0x20, CHR 0xA0])"

definition isLineTerminator :: "char \<Rightarrow> bool" where
  "isLineTerminator c = (c = CHR 0x0A \<or> c = CHR 0x0D)"

text \<open>
  The match of \<^verbatim>\<open>/^\s*--([^:]+):\s*(.+);$/\<close>: its two groups, or \<open>None\<close>. The
  name runs to the first colon. The value (\<open>matchValue\<close>, the part \<^verbatim>\<open>\s*(.+);$\<close> of
  the pattern) is what stands between the white space after the colon and the final
  semicolon, on one line; when nothing stands there, the pattern gives the last
  white-space character back to the value.
\<close>

definition matchValue :: "string \<Rightarrow> string option" where
  "matchValue rest =
     (let ws = takeWhile isSpaceJs rest;
          body = dropWhile isSpaceJs rest
      in if body = [] then None
         else if last body \<noteq> CHR '';'' then None
         else if butlast body \<noteq> [] then
           (if list_ex isLineTerminator (butlast body) then None else Some (butlast body))
         else if ws \<noteq> [] \<and> \<not> isLineTerminator (last ws) then Some [last ws]
         else None)"

definition parseCssVarLine :: "string \<Rightarrow> (string \<times> string) option" where
  "parseCssVarLine line =
     (let l1 = dropWhile isSpaceJs line in
      if take 2 l1 \<noteq> ''--'' then None
      else
        let l2 = drop 2 l1;
            name = takeWhile (\<lambda>c. c \<noteq> CHR '':'') l2;
            r = dropWhile (\<lambda>c. c \<noteq> CHR '':'') l2
        in if name = [] \<or> r = [] then None
           else map_option (Pair name) (matchValue (tl r)))"

text \<open>
  An object used as a dictionary of strings: its own properties in the order of their
  first assignment. An assignment to \<^verbatim>\<open>__proto__\<close> of a string creates no property.
  \<^verbatim>\<open>Object.keys\<close> lists the array indices first, in ascending order, then the other
  keys in the order of their creation.
\<close>

type_synonym jsobj = "(string \<times> string) list"

definition objSet :: "jsobj \<Rightarrow> string \<Rightarrow> string \<Rightarrow> jsobj" where
  "objSet m k v = (if k = ''__proto__'' then m else AList.update k v m)"

definition isDigit :: "char \<Rightarrow> bool" where
  "isDigit c = (c \<in> set ''0123456789'')"

definition decVal :: "string \<Rightarrow> int" where
  "decVal ds = fold (\<lambda>c n. 10 * n + (of_char c - 48)) ds 0"

definition isArrayIndex :: "string \<Rightarrow> bool" where
  "isArrayIndex k =
     (k \<noteq> [] \<and> list_all isDigit k \<and> (hd k \<noteq> CHR ''0'' \<or> k = ''0'')
      \<and> decVal k < 4294967295)"

definition objectKeys :: "jsobj \<Rightarrow> string list" where
  "objectKeys m =
     sort_key decVal (filter isArrayIndex (map fst m))
     @ filter (\<lambda>k. \<not> isArrayIndex k) (map fst m)"

definition startsWith :: "string \<Rightarrow> string \<Rightarrow> bool" where
  "startsWith s pre = (take (length pre) s = pre)"

text \<open>
  The dictionary of the declarations of a list of lines: a later line for a name
  replaces the value of an earlier one.
\<close>

definition varsMap :: "string list \<Rightarrow> jsobj" where
  "varsMap vars =
     fold (\<lambda>line m. case parseCssVarLine line of None \<Rightarrow> m | Some (n, v) \<Rightarrow> objSet m n v)
       vars []"

text \<open>
  \<^verbatim>\<open>generateLightDarkVars\<close>. The test \<^verbatim>\<open>!lightMap[prop]\<close> reads own properties here:
  the inherited ones have names that do not start with \<^verbatim>\<open>color-\<close>, and the next test
  skips those.
\<close>

definition lightDarkLine :: "string \<Rightarrow> string \<Rightarrow> string \<Rightarrow> string" where
  "lightDarkLine prop l d = ''  --'' @ prop @ '': light-dark('' @ l @ '', '' @ d @ '');''"

definition generateLightDarkVars :: "string list \<Rightarrow> string list \<Rightarrow> string list" where
  "generateLightDarkVars darkVars lightVars =
     (let darkMap = varsMap darkVars; lightMap = varsMap lightVars
      in concat (map (\<lambda>prop.
           case map_of lightMap prop of
             None \<Rightarrow> []
           | Some l \<Rightarrow>
               if l = [] then []
               else if \<not> startsWith prop ''color-'' then []
               else (case map_of darkMap prop of
                       None \<Rightarrow> []
                     | Some d \<Rightarrow> [lightDarkLine prop l d]))
         (objectKeys darkMap)))"

section \<open>The progressive-enhancement generators\<close>
text \<open>\<^verbatim>\<open>String.prototype.includes\<close> and the split of a text at its line feeds.\<close>

fun includesStr :: "string \<Rightarrow> string \<Rightarrow> bool" where
  "includesStr [] sub = (sub = [])"
| "includesStr (c # cs) sub = (startsWith (c # cs) sub \<or> includesStr cs sub)"

fun splitLines :: "string \<Rightarrow> string list" where
  "splitLines [] = [[]]"
| "splitLines (c # cs) =
     (if c = CHR 0x0A then [] # splitLines cs
      else (case splitLines cs of l # ls \<Rightarrow> (c # l) # ls | [] \<Rightarrow> [[c]]))"

text \<open>
  \<^verbatim>\<open>isAccentOrActionColor\<close>. The pattern \<^verbatim>\<open>/-([\d]+)$/\<close> matches a name that ends in
  a hyphen and one or more digits.
\<close>

definition endsWithHyphenDigits :: "string \<Rightarrow> bool" where
  "endsWithHyphenDigits s =
     (let ds = takeWhile isDigit (rev s); r = dropWhile isDigit (rev s)
      in ds \<noteq> [] \<and> r \<noteq> [] \<and> hd r = CHR ''-'')"

definition isAccentOrActionColor :: "string \<Rightarrow> bool" where
  "isAccentOrActionColor propName =
     (if \<not> startsWith propName ''color-'' then False
      else let rest = drop 6 propName in
        if startsWith rest ''shadow-'' then False
        else if includesStr rest ''overlay'' then False
        else if endsWithHyphenDigits rest then False
        else if startsWith rest ''accent-'' then True
        else if startsWith rest ''modeless-'' \<and> \<not> includesStr rest ''white''
                \<and> \<not> includesStr rest ''black'' then True
        else False)"

text \<open>\<^verbatim>\<open>generatePropertyDeclarations\<close> with its helper \<^verbatim>\<open>inferSyntax\<close>.\<close>

definition inferSyntax :: "string \<Rightarrow> string option" where
  "inferSyntax name =
     (if startsWith name ''color-'' then Some ''<color>''
      else if startsWith name ''shadow-'' then None
      else if startsWith name ''size-'' \<or> startsWith name ''space-''
              \<or> startsWith name ''border-width-'' \<or> startsWith name ''blur-'' then Some ''<length>''
      else if startsWith name ''radius-'' then Some ''<length>''
      else if startsWith name ''font-size-'' \<or> startsWith name ''line-height-'' then Some ''<length>''
      else if startsWith name ''opacity-'' then Some ''<number>''
      else if startsWith name ''z-'' then Some ''<integer>''
      else if startsWith name ''font-weight-'' then Some ''<number>''
      else if startsWith name ''duration-'' then Some ''<time>''
      else None)"

fun propertyDeclarations :: "string list \<Rightarrow> string list \<Rightarrow> string list" where
  "propertyDeclarations seen [] = []"
| "propertyDeclarations seen (line # rest) =
     (case parseCssVarLine line of
        None \<Rightarrow> propertyDeclarations seen rest
      | Some (name, v) \<Rightarrow>
          if name \<in> set seen then propertyDeclarations seen rest
          else (case inferSyntax name of
                  None \<Rightarrow> propertyDeclarations seen rest
                | Some syn \<Rightarrow>
                    (''@property --'' @ name @ '' {\<newline>''
                     @ ''  syntax: '' @ [CHR 0x27] @ syn @ [CHR 0x27] @ '';\<newline>''
                     @ ''  inherits: true;\<newline>''
                     @ ''  initial-value: '' @ v @ '';\<newline>''
                     @ ''}'')
                    # propertyDeclarations (name # seen) rest))"

definition generatePropertyDeclarations :: "string list \<Rightarrow> string list \<Rightarrow> string list" where
  "generatePropertyDeclarations rootVars darkVars = propertyDeclarations [] (rootVars @ darkVars)"

text \<open>
  The match of \<^verbatim>\<open>/^\s*--(color-[^:]+):\s*(.+);$/\<close>: a declaration whose name is
  \<^verbatim>\<open>color-\<close> and at least one more character.
\<close>

definition colorDeclName :: "string \<Rightarrow> string option" where
  "colorDeclName line =
     (case parseCssVarLine line of
        None \<Rightarrow> None
      | Some (name, v) \<Rightarrow>
          if startsWith name ''color-'' \<and> length name > 6 then Some name else None)"

text \<open>
  \<^verbatim>\<open>generateColorMixVars\<close> and \<^verbatim>\<open>generateRelativeColorVars\<close>: \<open>processVars\<close> for one
  bucket; the result has the three buckets.
\<close>

definition colorMixLines :: "string list \<Rightarrow> string list" where
  "colorMixLines vars =
     concat (map (\<lambda>line.
        case colorDeclName line of
          None \<Rightarrow> []
        | Some propName \<Rightarrow>
            if \<not> isAccentOrActionColor propName then []
            else [''  --'' @ propName @ ''-hover: color-mix(in oklch, var(--'' @ propName @ '') 90%, white);'',
                  ''  --'' @ propName @ ''-active: color-mix(in oklch, var(--'' @ propName @ '') 80%, black);''])
       vars)"

definition relativeColorLines :: "string list \<Rightarrow> string list" where
  "relativeColorLines vars =
     concat (map (\<lambda>line.
        case colorDeclName line of
          None \<Rightarrow> []
        | Some propName \<Rightarrow>
            if \<not> isAccentOrActionColor propName then []
            else [''  --'' @ propName @ ''-lighter: oklch(from var(--'' @ propName @ '') calc(l * 1.2) c h);'',
                  ''  --'' @ propName @ ''-darker: oklch(from var(--'' @ propName @ '') calc(l * 0.8) c h);''])
       vars)"

text \<open>
  What a generator returns: the declaration lines for the three blocks and, when the
  color-space conversion is on, the converted colors. A list a generator does not
  return is the empty list here: the assembler treats the two alike.
\<close>

datatype bucket = Root | Dark | Light

record oklchColor =
  propName :: string
  hex :: string
  oklch :: string
  bucket :: bucket

record genResult =
  root' :: "string list"
  light :: "string list"
  dark :: "string list"
  oklchColors :: "oklchColor list"

definition generateColorMixVars :: "string list \<Rightarrow> string list \<Rightarrow> string list \<Rightarrow> genResult" where
  "generateColorMixVars rootVars darkVars lightVars =
     \<lparr>root' = colorMixLines rootVars, light = colorMixLines lightVars,
      dark = colorMixLines darkVars, oklchColors = []\<rparr>"

definition generateRelativeColorVars :: "string list \<Rightarrow> string list \<Rightarrow> string list \<Rightarrow> genResult" where
  "generateRelativeColorVars rootVars darkVars lightVars =
     \<lparr>root' = relativeColorLines rootVars, light = relativeColorLines lightVars,
      dark = relativeColorLines darkVars, oklchColors = []\<rparr>"


section \<open>The assembler\<close>

text \<open>
  The first loop of \<^verbatim>\<open>assemble\<close>: the lines of every generator that has some, under a
  comment with the generator's name, and all converted colors. Each generator has been
  run; its name and result are given.
\<close>

definition sectionComment :: "string \<Rightarrow> string" where
  "sectionComment name = ''\<newline>  /* '' @ name @ '' */''"

definition collectVars :: "(string \<times> genResult) list \<Rightarrow> genResult" where
  "collectVars generators =
     fold (\<lambda>(name, result) acc.
        \<lparr>root' = root' acc @ (if root' result \<noteq> [] then sectionComment name # root' result else []),
         light = light acc @ (if light result \<noteq> [] then sectionComment name # light result else []),
         dark = dark acc @ (if dark result \<noteq> [] then sectionComment name # dark result else []),
         oklchColors = oklchColors acc @ oklchColors result\<rparr>)
       generators \<lparr>root' = [], light = [], dark = [], oklchColors = []\<rparr>"

definition nestIndent :: "string list \<Rightarrow> string" where
  "nestIndent vars =
     joinWith ''\<newline>''
       (map (\<lambda>l. if l \<noteq> [] then ''  '' @ l else l) (splitLines (joinWith ''\<newline>'' vars)))"

text \<open>
  The em dash of the fixed comment texts, as its three UTF-8 bytes: these comments are
  the only texts of the model outside Latin-1, and nothing reads them.
\<close>

definition emDash :: string where
  "emDash = [CHR 0xE2, CHR 0x80, CHR 0x94]"

text \<open>The lines of one block of converted colors, each color with its source as fallback.\<close>

definition oklchLines :: "string \<Rightarrow> oklchColor list \<Rightarrow> string list" where
  "oklchLines indent cs =
     concat (map (\<lambda>c. [indent @ ''--'' @ propName c @ '': '' @ oklch c @ '';'',
                         indent @ ''--'' @ propName c @ ''-hex: '' @ hex c @ '';'']) cs)"

definition oklchSections :: "oklchColor list \<Rightarrow> string list" where
  "oklchSections allOklchColors =
     (let byRoot = filter (\<lambda>c. bucket c = Root) allOklchColors;
          byDark = filter (\<lambda>c. bucket c = Dark) allOklchColors;
          byLight = filter (\<lambda>c. bucket c = Light) allOklchColors;
          supportsLines =
            [''@supports (color: oklch(0% 0 0)) {'']
            @ (if byRoot \<noteq> [] then [''  :root {''] @ oklchLines ''    '' byRoot @ [''  }\<newline>''] else [])
            @ (if byDark \<noteq> [] then [''  .dark {''] @ oklchLines ''    '' byDark @ [''  }\<newline>''] else [])
            @ (if byLight \<noteq> [] then [''  .light {''] @ oklchLines ''    '' byLight @ [''  }\<newline>''] else [])
            @ (if byDark \<noteq> [] then
                 [''  @media (prefers-color-scheme: dark) {'', ''    :root:not(.dark):not(.light) {'']
                 @ oklchLines ''      '' byDark @ [''    }'', ''  }\<newline>'']
               else [])
            @ (if byLight \<noteq> [] then
                 [''  @media (prefers-color-scheme: light) {'', ''    :root:not(.dark):not(.light) {'']
                 @ oklchLines ''      '' byLight @ [''    }'', ''  }'']
               else [])
            @ [''}'']
      in [[],
          ''/* OKLCH color space '' @ emDash @ '' perceptually uniform, wider gamut */'',
          ''/* Hex fallbacks above; OKLCH overrides below for supporting browsers */'',
          joinWith ''\<newline>'' supportsLines])"

text \<open>
  The block of one bucket inside a feature query of the progressive-enhancement part:
  the lines indented by two more spaces.
\<close>

definition bucketBlock :: "string \<Rightarrow> string list \<Rightarrow> string \<Rightarrow> string list" where
  "bucketBlock selector ls closing =
     (if ls \<noteq> [] then [''  '' @ selector @ '' {''] @ map (\<lambda>l. ''  '' @ l) ls @ [closing] else [])"

definition modernSections :: "bool \<Rightarrow> string list \<Rightarrow> string list \<Rightarrow> string list \<Rightarrow> string list" where
  "modernSections OKLCH_ENABLED rootVars darkVars lightVars =
     (let propertyDecls = generatePropertyDeclarations rootVars darkVars;
          colorMix = generateColorMixVars rootVars darkVars lightVars;
          lightDarkLines = generateLightDarkVars darkVars lightVars;
          relColor = generateRelativeColorVars rootVars darkVars lightVars
      in [[],
          ''/* Modern CSS '' @ emDash @ '' progressive enhancement */'',
          ''/* Browser support: Chrome 111+, Safari 16.4+, Firefox 113+ */'']
         @ (if propertyDecls \<noteq> [] then
              [[],
               ''/* @property '' @ emDash @ '' typed custom properties (enables transitions, validation) */'',
               joinWith ''\<newline>\<newline>'' propertyDecls]
            else [])
         @ (if root' colorMix \<noteq> [] \<or> dark colorMix \<noteq> [] \<or> light colorMix \<noteq> [] then
              [[],
               ''/* color-mix() '' @ emDash @ '' runtime hover/active derived states */'',
               joinWith ''\<newline>''
                 ([''@supports (color: color-mix(in oklch, red, blue)) {'']
                  @ bucketBlock '':root'' (root' colorMix) ''  }\<newline>''
                  @ bucketBlock ''.dark'' (dark colorMix) ''  }\<newline>''
                  @ bucketBlock ''.light'' (light colorMix) ''  }''
                  @ [''}''])]
            else [])
         @ (if lightDarkLines \<noteq> [] then
              [[],
               ''/* light-dark() '' @ emDash @ '' single-property theme values (requires color-scheme on :root) */'',
               joinWith ''\<newline>''
                 ([''@supports (color: light-dark(red, blue)) {'',
                   ''  :root {'',
                   ''    color-scheme: light dark;'']
                  @ map (\<lambda>l. ''  '' @ l) lightDarkLines
                  @ [''  }'', ''}''])]
            else [])
         @ (if OKLCH_ENABLED
               \<and> (root' relColor \<noteq> [] \<or> dark relColor \<noteq> [] \<or> light relColor \<noteq> []) then
              [[],
               ''/* Relative color syntax '' @ emDash @ '' OKLCH shade generation */'',
               joinWith ''\<newline>''
                 ([''@supports (color: oklch(from red l c h)) {'']
                  @ bucketBlock '':root'' (root' relColor) ''  }\<newline>''
                  @ bucketBlock ''.dark'' (dark relColor) ''  }\<newline>''
                  @ bucketBlock ''.light'' (light relColor) ''  }''
                  @ [''}''])]
            else []))"

text \<open>
  \<^verbatim>\<open>assemble\<close>. The two flags of the command line and the day of the run
  (\<^verbatim>\<open>new Date().toISOString().split('T')[0]\<close>) are arguments.
\<close>

definition assemble :: "bool \<Rightarrow> bool \<Rightarrow> string \<Rightarrow> (string \<times> genResult) list \<Rightarrow> string" where
  "assemble OKLCH_ENABLED MODERN_CSS_ENABLED today generators =
     (let vars = collectVars generators;
          rootVars = root' vars;
          lightVars = light vars;
          darkVars = dark vars;
          allOklchColors = oklchColors vars
      in joinWith ''\<newline>''
           ([''/* tokens.css '' @ emDash @ '' Generated from v2/tokens/*.json */'',
             ''/* Do not edit manually. Run: node scripts/generate.js */'',
             ''/* Generated: '' @ today @ '' */\<newline>'',
             '':root {'' @ joinWith ''\<newline>'' rootVars @ ''\<newline>}\<newline>'',
             ''.dark {'' @ joinWith ''\<newline>'' darkVars @ ''\<newline>}\<newline>'',
             ''.light {'' @ joinWith ''\<newline>'' lightVars @ ''\<newline>}\<newline>'',
             ''/* OS preference fallback (when no .dark/.light class is set) */'',
             ''@media (prefers-color-scheme: dark) {\<newline>  :root:not(.dark):not(.light) {''
               @ nestIndent darkVars @ ''\<newline>  }\<newline>}\<newline>'',
             ''@media (prefers-color-scheme: light) {\<newline>  :root:not(.dark):not(.light) {''
               @ nestIndent lightVars @ ''\<newline>  }\<newline>}'']
            @ (if OKLCH_ENABLED \<and> allOklchColors \<noteq> [] then oklchSections allOklchColors else [])
            @ (if MODERN_CSS_ENABLED then modernSections OKLCH_ENABLED rootVars darkVars lightVars
               else [])))"

section \<open>The radius generators of the three formats\<close>






text \<open>
  \<^verbatim>\<open>formatDTCGValue\<close>. A property read from \<^verbatim>\<open>null\<close> raises a \<^verbatim>\<open>TypeError\<close>; a
  property an object does not have is \<^verbatim>\<open>undefined\<close>, and an array has none of the
  four.
\<close>

datatype jsError = TypeError










section \<open>The generator list of the three-tier pipeline\<close>

text \<open>
  The second part of \<^verbatim>\<open>buildThreeTierGenerators\<close>. An entry of the list is a name and a
  closure \<^verbatim>\<open>() => generateThreeTier...(tokens)\<close>; the closure is kept as the function it
  calls and the tokens it passes to it.
\<close>

datatype generator =
    Colors | Sizing | Typography | Radii | Shadows | Borders | Opacity | ZIndex | Transitions
  | CatchAll

definition standardPrefixes :: "string list" where
  "standardPrefixes =
     [''color'', ''shadow'', ''blur'', ''font'', ''line-height'', ''font-weight-composite'',
      ''size'', ''space'', ''radius'', ''border'', ''opacity'', ''z'', ''duration'', ''easing'']"

text \<open>
  \<^verbatim>\<open>standardPrefixes.has(t.path[0])\<close>, and \<^verbatim>\<open>t.path[0]\<close> as a property name: of an empty
  path it is \<^verbatim>\<open>undefined\<close>, which no set of names has and which names the property
  \<^verbatim>\<open>undefined\<close>.
\<close>

definition hasStandardPrefix :: "token \<Rightarrow> bool" where
  "hasStandardPrefix t = (case path t of [] \<Rightarrow> False | p0 # ps \<Rightarrow> p0 \<in> set standardPrefixes)"

definition groupOf :: "token \<Rightarrow> string" where
  "groupOf t = (case path t of [] \<Rightarrow> ''undefined'' | p0 # ps \<Rightarrow> p0)"

text \<open>
  One round of the loop that fills \<^verbatim>\<open>groups\<close>, a plain object holding one array of
  tokens for each group, its own properties in the order of their creation. For a name
  the object inherits, \<^verbatim>\<open>groups[group]\<close> is not falsy and has no \<^verbatim>\<open>push\<close>, and the call
  raises a \<^verbatim>\<open>TypeError\<close>.
\<close>

definition addToGroup ::
  "token \<Rightarrow> (string \<times> token list) list \<Rightarrow> jsError + (string \<times> token list) list" where
  "addToGroup t groups =
     (case map_of groups (groupOf t) of
        Some ts \<Rightarrow> Inr (AList.update (groupOf t) (ts @ [t]) groups)
      | None \<Rightarrow>
          if objectPrototype (groupOf t) \<noteq> None then Inl TypeError
          else Inr (groups @ [(groupOf t, [t])]))"

fun groupTokens ::
  "token list \<Rightarrow> (string \<times> token list) list \<Rightarrow> jsError + (string \<times> token list) list" where
  "groupTokens [] groups = Inr groups"
| "groupTokens (t # ts) groups =
     (case addToGroup t groups of
        Inl e \<Rightarrow> Inl e
      | Inr groups' \<Rightarrow> groupTokens ts groups')"

text \<open>
  \<^verbatim>\<open>Object.entries\<close> of such an object: the array indices first, in ascending order,
  then the other names in the order of their creation.
\<close>

definition entriesOrder :: "(string \<times> 'a) list \<Rightarrow> (string \<times> 'a) list" where
  "entriesOrder m =
     sort_key (\<lambda>kv. decVal (fst kv)) (filter (\<lambda>kv. isArrayIndex (fst kv)) m)
     @ filter (\<lambda>kv. \<not> isArrayIndex (fst kv)) m"

definition threeTierGenerators ::
  "token list \<Rightarrow> jsError + (string \<times> generator \<times> token list) list" where
  "threeTierGenerators allResolved' =
     (let generators =
            [(''colors'', Colors, allResolved'),
             (''sizing'', Sizing, allResolved'),
             (''typography'', Typography, allResolved'),
             (''radii'', Radii, allResolved'),
             (''shadows'', Shadows, allResolved'),
             (''borders'', Borders, allResolved'),
             (''opacity'', Opacity, allResolved'),
             (''z-index'', ZIndex, allResolved'),
             (''transitions'', Transitions, allResolved')];
          remainingTokens = filter (\<lambda>t. \<not> hasStandardPrefix t) allResolved'
      in if remainingTokens = [] then Inr generators
         else (case groupTokens remainingTokens [] of
                 Inl e \<Rightarrow> Inl e
               | Inr groups \<Rightarrow>
                   Inr (generators
                        @ map (\<lambda>(group, tokens). (group, CatchAll, tokens)) (entriesOrder groups))))"

text \<open>
  \<^verbatim>\<open>buildThreeTierGenerators\<close>: the resolution of the tiers, then the list. The warnings
  printed come with the result.
\<close>

definition buildThreeTierGenerators ::
  "nat \<Rightarrow> token list \<Rightarrow> token list \<Rightarrow> token list
     \<Rightarrow> ((jsError + (string \<times> generator \<times> token list) list) \<times> string list) option" where
  "buildThreeTierGenerators n primitiveTokens rawSemanticTokens rawComponentTokens =
     (case resolveThreeTier n primitiveTokens rawSemanticTokens rawComponentTokens of
        None \<Rightarrow> None
      | Some (t, w) \<Rightarrow> Some (threeTierGenerators (allResolved t), w))"

section \<open>The color space converter\<close>

text \<open>
  \<^verbatim>\<open>parseInt(s, 16)\<close>: leading white space and one sign are skipped, then a prefix
  \<^verbatim>\<open>0x\<close>, and the longest run of hexadecimal digits is read; \<open>None\<close> is \<^verbatim>\<open>NaN\<close>, the
  result when that run is empty.
\<close>

definition hexDigitVal :: "char \<Rightarrow> int option" where
  "hexDigitVal c =
     (let n = (of_char c :: int) in
      if 48 \<le> n \<and> n \<le> 57 then Some (n - 48)
      else if 97 \<le> n \<and> n \<le> 102 then Some (n - 87)
      else if 65 \<le> n \<and> n \<le> 70 then Some (n - 55)
      else None)"

definition parseInt16 :: "string \<Rightarrow> int option" where
  "parseInt16 s =
     (let s1 = dropWhile isSpaceJs s;
          neg = (s1 \<noteq> [] \<and> hd s1 = CHR ''-'');
          s2 = (if s1 \<noteq> [] \<and> (hd s1 = CHR ''+'' \<or> hd s1 = CHR ''-'') then tl s1 else s1);
          s3 = (if take 2 s2 = ''0x'' \<or> take 2 s2 = ''0X'' then drop 2 s2 else s2);
          ds = takeWhile (\<lambda>c. hexDigitVal c \<noteq> None) s3
      in if ds = [] then None
         else Some ((if neg then - 1 else 1) * foldl (\<lambda>n c. 16 * n + the (hexDigitVal c)) 0 ds))"

text \<open>
  \<^verbatim>\<open>parseHex\<close>: the four channels of \<^verbatim>\<open>#rgb\<close>, \<^verbatim>\<open>#rgba\<close>, \<^verbatim>\<open>#rrggbb\<close> and
  \<^verbatim>\<open>#rrggbbaa\<close>, or \<open>None\<close> for \<^verbatim>\<open>null\<close>.
\<close>

definition trim :: "string \<Rightarrow> string" where
  "trim s = rev (dropWhile isSpaceJs (rev (dropWhile isSpaceJs s)))"

definition channels :: "int option \<Rightarrow> int option \<Rightarrow> int option \<Rightarrow> int option
    \<Rightarrow> (int \<times> int \<times> int \<times> int) option" where
  "channels r g b a =
     (case (r, g, b, a) of
        (Some r', Some g', Some b', Some a') \<Rightarrow> Some (r', g', b', a')
      | _ \<Rightarrow> None)"

definition parseHex :: "string \<Rightarrow> (int \<times> int \<times> int \<times> int) option" where
  "parseHex hex0 =
     (let hex1 = trim hex0 in
      if \<not> startsWith hex1 ''#'' then None
      else
        let h = drop 1 hex1 in
        if length h = 3 then
          channels (parseInt16 [h ! 0, h ! 0]) (parseInt16 [h ! 1, h ! 1])
                   (parseInt16 [h ! 2, h ! 2]) (Some 255)
        else if length h = 4 then
          channels (parseInt16 [h ! 0, h ! 0]) (parseInt16 [h ! 1, h ! 1])
                   (parseInt16 [h ! 2, h ! 2]) (parseInt16 [h ! 3, h ! 3])
        else if length h = 6 then
          channels (parseInt16 (take 2 h)) (parseInt16 (take 2 (drop 2 h)))
                   (parseInt16 (take 2 (drop 4 h))) (Some 255)
        else if length h = 8 then
          channels (parseInt16 (take 2 h)) (parseInt16 (take 2 (drop 2 h)))
                   (parseInt16 (take 2 (drop 4 h))) (parseInt16 (take 2 (drop 6 h)))
        else None)"

text \<open>
  The arithmetic of the engine. A number is the real it stands for. \<open>rnd\<close> is the
  rounding of an exact result, or of a decimal literal, to a double; the four library
  functions are those of \<^verbatim>\<open>Math\<close>. The conversion is written over any such arithmetic;
  the properties below hold for every arithmetic that is accurate (\<open>accurate\<close>, further
  down), as the doubles are where nothing overflows or underflows.
\<close>

record fparith =
  rnd :: "real \<Rightarrow> real"
  mathPow :: "real \<Rightarrow> real \<Rightarrow> real"
  mathCbrt :: "real \<Rightarrow> real"
  mathSqrt :: "real \<Rightarrow> real"
  mathAtan2 :: "real \<Rightarrow> real \<Rightarrow> real"

definition lit :: "fparith \<Rightarrow> real \<Rightarrow> real" where
  "lit fp x = rnd fp x"

definition fadd :: "fparith \<Rightarrow> real \<Rightarrow> real \<Rightarrow> real" where
  "fadd fp x y = rnd fp (x + y)"

definition fsub :: "fparith \<Rightarrow> real \<Rightarrow> real \<Rightarrow> real" where
  "fsub fp x y = rnd fp (x - y)"

definition fmul :: "fparith \<Rightarrow> real \<Rightarrow> real \<Rightarrow> real" where
  "fmul fp x y = rnd fp (x * y)"

definition fdiv :: "fparith \<Rightarrow> real \<Rightarrow> real \<Rightarrow> real" where
  "fdiv fp x y = rnd fp (x / y)"

text \<open>\<^verbatim>\<open>Math.round\<close>: the nearest integer, a half rounded up.\<close>

definition mathRound :: "real \<Rightarrow> real" where
  "mathRound x = of_int \<lfloor>x + 1 / 2\<rfloor>"

definition srgbToLinear :: "fparith \<Rightarrow> real \<Rightarrow> real" where
  "srgbToLinear fp c =
     (if c \<le> lit fp 0.04045 then fdiv fp c (lit fp 12.92)
      else mathPow fp (fdiv fp (fadd fp c (lit fp 0.055)) (lit fp 1.055)) (lit fp 2.4))"

definition linearRGBToXYZ :: "fparith \<Rightarrow> real \<Rightarrow> real \<Rightarrow> real \<Rightarrow> real \<times> real \<times> real" where
  "linearRGBToXYZ fp lr lg lb =
     (let x = fadd fp (fadd fp (fmul fp (lit fp 0.4124564) lr) (fmul fp (lit fp 0.3575761) lg))
                (fmul fp (lit fp 0.1804375) lb);
          y = fadd fp (fadd fp (fmul fp (lit fp 0.2126729) lr) (fmul fp (lit fp 0.7151522) lg))
                (fmul fp (lit fp 0.0721750) lb);
          z = fadd fp (fadd fp (fmul fp (lit fp 0.0193339) lr) (fmul fp (lit fp 0.1191920) lg))
                (fmul fp (lit fp 0.9503041) lb)
      in (x, y, z))"

definition xyzToOKLab :: "fparith \<Rightarrow> real \<Rightarrow> real \<Rightarrow> real \<Rightarrow> real \<times> real \<times> real" where
  "xyzToOKLab fp x y z =
     (let l0 = fsub fp (fadd fp (fmul fp (lit fp 0.8189330101) x) (fmul fp (lit fp 0.3618667424) y))
                 (fmul fp (lit fp 0.1288597137) z);
          m0 = fadd fp (fadd fp (fmul fp (lit fp 0.0329845436) x) (fmul fp (lit fp 0.9293118715) y))
                 (fmul fp (lit fp 0.0361456387) z);
          s0 = fadd fp (fadd fp (fmul fp (lit fp 0.0482003018) x) (fmul fp (lit fp 0.2643662691) y))
                 (fmul fp (lit fp 0.6338517070) z);
          l = mathCbrt fp l0;
          m = mathCbrt fp m0;
          s = mathCbrt fp s0;
          L = fsub fp (fadd fp (fmul fp (lit fp 0.2104542553) l) (fmul fp (lit fp 0.7936177850) m))
                (fmul fp (lit fp 0.0040720468) s);
          a = fadd fp (fsub fp (fmul fp (lit fp 1.9779984951) l) (fmul fp (lit fp 2.4285922050) m))
                (fmul fp (lit fp 0.4505937099) s);
          b = fsub fp (fadd fp (fmul fp (lit fp 0.0259040371) l) (fmul fp (lit fp 0.7827717662) m))
                (fmul fp (lit fp 0.8086757660) s)
      in (L, a, b))"

definition oklabToOKLCH :: "fparith \<Rightarrow> real \<Rightarrow> real \<Rightarrow> real \<Rightarrow> real \<times> real \<times> real" where
  "oklabToOKLCH fp L a b =
     (let C = mathSqrt fp (fadd fp (fmul fp a a) (fmul fp b b));
          H0 = fmul fp (mathAtan2 fp b a) (fdiv fp 180 (lit fp pi));
          H = (if H0 < 0 then fadd fp H0 360 else H0)
      in (L, C, H))"

text \<open>\<^verbatim>\<open>round(num, places)\<close> of the script.\<close>

definition round' :: "fparith \<Rightarrow> real \<Rightarrow> nat \<Rightarrow> real" where
  "round' fp num places =
     (let factor = mathPow fp 10 (real places)
      in fdiv fp (mathRound (fmul fp num factor)) factor)"

text \<open>
  \<^verbatim>\<open>hexToOklch\<close>. \<open>numStr\<close> is \<^verbatim>\<open>String\<close> on numbers, the text a template writes for
  a number.
\<close>

definition hexToOklch :: "fparith \<Rightarrow> (real \<Rightarrow> string) \<Rightarrow> string \<Rightarrow> string option" where
  "hexToOklch fp numStr hex0 =
     (case parseHex hex0 of
        None \<Rightarrow> None
      | Some (r8, g8, b8, a8) \<Rightarrow>
          let r = fdiv fp (of_int r8) 255;
              g = fdiv fp (of_int g8) 255;
              b = fdiv fp (of_int b8) 255;
              lr = srgbToLinear fp r;
              lg = srgbToLinear fp g;
              lb = srgbToLinear fp b;
              (x, y, z) = linearRGBToXYZ fp lr lg lb;
              (L, a, bLab) = xyzToOKLab fp x y z;
              (Lch, C, H) = oklabToOKLCH fp L a bLab;
              Lpct = round' fp (fmul fp Lch 100) 2;
              Cround = round' fp C 4;
              Hround = round' fp H 1;
              isAchromatic = (Cround < lit fp 0.0005);
              chromaStr = (if isAchromatic then ''0'' else numStr Cround);
              hueStr = (if isAchromatic then ''none'' else numStr Hround);
              alpha = fdiv fp (of_int a8) 255
          in if alpha < 1 then
               Some (''oklch('' @ numStr Lpct @ ''% '' @ chromaStr @ '' '' @ hueStr @ '' / ''
                     @ numStr (round' fp alpha 2) @ '')'')
             else Some (''oklch('' @ numStr Lpct @ ''% '' @ chromaStr @ '' '' @ hueStr @ '')''))"

text \<open>
  An accurate arithmetic: every rounding and every library function is within the
  relative error \<open>10\<^sup>-\<^sup>9\<close> of the exact result, and an integer that a double holds is
  rounded to itself. The doubles are far more accurate (\<open>2\<^sup>-\<^sup>5\<^sup>3\<close> for a rounding).
\<close>

definition accurate :: "fparith \<Rightarrow> bool" where
  "accurate fp =
     ((\<forall>x. \<bar>rnd fp x - x\<bar> \<le> \<bar>x\<bar> / 10 ^ 9)
      \<and> (\<forall>k::int. \<bar>k\<bar> \<le> 2 ^ 53 \<longrightarrow> rnd fp (of_int k) = of_int k)
      \<and> (\<forall>x y. 0 < x \<longrightarrow> \<bar>mathPow fp x y - x powr y\<bar> \<le> (x powr y) / 10 ^ 9)
      \<and> (\<forall>x. \<bar>mathCbrt fp x - root 3 x\<bar> \<le> \<bar>root 3 x\<bar> / 10 ^ 9)
      \<and> (\<forall>x. 0 \<le> x \<longrightarrow> \<bar>mathSqrt fp x - sqrt x\<bar> \<le> sqrt x / 10 ^ 9))"

text \<open>The exact arithmetic, with the angle of a point as \<^verbatim>\<open>Math.atan2\<close> defines it.\<close>

definition atan2 :: "real \<Rightarrow> real \<Rightarrow> real" where
  "atan2 y x =
     (if 0 < x then arctan (y / x)
      else if x < 0 then (if 0 \<le> y then arctan (y / x) + pi else arctan (y / x) - pi)
      else if 0 < y then pi / 2
      else if y < 0 then - pi / 2
      else 0)"

definition exactArith :: fparith where
  "exactArith = \<lparr>rnd = (\<lambda>x. x), mathPow = (\<lambda>x y. x powr y), mathCbrt = root 3,
                 mathSqrt = sqrt, mathAtan2 = atan2\<rparr>"

section \<open>Predicates used in the statements\<close>

text \<open>A reference name as the patterns read it: not empty, no closing brace.\<close>

definition validRef :: "string \<Rightarrow> bool" where
  "validRef p = (p \<noteq> [] \<and> CHR ''}'' \<notin> set p)"

text \<open>
  A text in which every opening brace is followed, later in the text, by a closing one:
  no reference that starts in it can reach beyond its end.
\<close>

definition closedBraces :: "string \<Rightarrow> bool" where
  "closedBraces pre = (CHR ''{'' \<notin> set (takeWhile (\<lambda>c. c \<noteq> CHR ''}'') (rev pre)))"

text \<open>
  A cyclic alias chain in a lookup: each path of the list has as its value the alias of
  the next path, and the last one the alias of the first.
\<close>

definition isAliasCycle :: "refmap \<Rightarrow> string list \<Rightarrow> bool" where
  "isAliasCycle refMap cyc =
     (cyc \<noteq> [] \<and> list_all validRef cyc \<and>
      list_all (\<lambda>i. refMap (cyc ! i) = Some (VStr (aliasText (cyc ! (Suc i mod length cyc)))))
        [0..<length cyc])"

definition cycAB :: refmap where
  "cycAB = [''A'' \<mapsto> VStr ''{B}'', ''B'' \<mapsto> VStr ''{A}'']"

text \<open>
  Lookups used as examples: a third path that is the alias of a path of the cycle, a
  number, and a composite with an alias in one field.
\<close>

definition cycABC :: refmap where
  "cycABC = [''A'' \<mapsto> VStr ''{B}'', ''B'' \<mapsto> VStr ''{A}'', ''C'' \<mapsto> VStr ''{A}'']"

definition shadowMap :: refmap where
  "shadowMap =
     [''shadow.base'' \<mapsto> VObj [(''offsetX'', VStr ''0px''), (''color'', VStr ''{color.black}'')],
      ''color.black'' \<mapsto> VStr ''#000'']"

definition weightMap :: refmap where
  "weightMap = [''font.weight.semibold'' \<mapsto> VNum 600]"

definition fourMap :: refmap where
  "fourMap = [''w'' \<mapsto> VNum 4]"

text \<open>
  The parts of a text as \<open>splitRefs\<close> reads them, and the values the resolver returns as
  they are: no reference in a text, no key \<^verbatim>\<open>__proto__\<close> in a composite.
\<close>

fun segText :: "seg \<Rightarrow> string" where
  "segText (Lit t) = t"
| "segText (Ref r) = aliasText r"

fun isLit :: "seg \<Rightarrow> bool" where
  "isLit (Lit t) = True"
| "isLit (Ref r) = False"

fun noRefs :: "jsval \<Rightarrow> bool" where
  "noRefs (VStr s) = list_all isLit (splitRefs s)"
| "noRefs (VObj kvs) = list_all (\<lambda>kv. fst kv \<noteq> ''__proto__'' \<and> noRefs (snd kv)) kvs"
| "noRefs VObjectPrototype = False"
| "noRefs v = True"

text \<open>
  The values on which \<open>toStr\<close> is \<^verbatim>\<open>String\<close>: integers up to \<open>2\<^sup>5\<^sup>3\<close>, which are written
  digit by digit, and no object with an own property \<^verbatim>\<open>toString\<close>, in an array or by
  itself.
\<close>

fun stringable :: "jsval \<Rightarrow> bool" where
  "stringable (VNum n) = (\<bar>n\<bar> \<le> 9007199254740992)"
| "stringable (VArr xs) = list_all stringable xs"
| "stringable (VObj kvs) = (''toString'' \<notin> set (map fst kvs))"
| "stringable v = True"

text \<open>
  Token lists that leave the prototype of the lookup built from them as it is: no token
  has the joined path \<^verbatim>\<open>__proto__\<close>.
\<close>

definition noProtoPath :: "token list \<Rightarrow> bool" where
  "noProtoPath ts = list_all (\<lambda>t. refKey t \<noteq> ''__proto__'') ts"

text \<open>
  Plain token lists: the values are JSON values in which no object has a key
  \<^verbatim>\<open>__proto__\<close> or \<^verbatim>\<open>toString\<close> and every number is an integer up to \<open>2\<^sup>5\<^sup>3\<close>, and no
  token has the joined path \<^verbatim>\<open>__proto__\<close>. On lookups built from such lists every object
  keeps the prototype \<^verbatim>\<open>Object.prototype\<close> and \<^verbatim>\<open>String\<close> raises no error.
\<close>

fun plainValue :: "jsval \<Rightarrow> bool" where
  "plainValue (VNum n) = (\<bar>n\<bar> \<le> 9007199254740992)"
| "plainValue (VArr xs) = list_all plainValue xs"
| "plainValue (VObj kvs) =
     list_all (\<lambda>kv. fst kv \<noteq> ''__proto__'' \<and> fst kv \<noteq> ''toString'' \<and> plainValue (snd kv)) kvs"
| "plainValue (VFun name) = False"
| "plainValue VObjectPrototype = False"
| "plainValue v = True"

definition plainTokens :: "token list \<Rightarrow> bool" where
  "plainTokens ts = (noProtoPath ts \<and> list_all (\<lambda>t. plainValue (val t)) ts)"

definition exPrimitives :: "token list" where
  "exPrimitives = [\<lparr>path = [''space'', ''base''], val = VNum 8, type = Some ''dimension'', mode = None\<rparr>]"

definition exSemantic :: "token list" where
  "exSemantic = [\<lparr>path = [''radius'', ''radius-20''], val = VStr ''{space.base}'',
                  type = Some ''dimension'', mode = None\<rparr>]"

definition exComponent :: "token list" where
  "exComponent = [\<lparr>path = [''button'', ''radius''], val = VStr ''{radius.radius-20}'',
                   type = Some ''dimension'', mode = None\<rparr>]"

definition exSemanticResolved :: "token list" where
  "exSemanticResolved = [\<lparr>path = [''radius'', ''radius-20''], val = VNum 8,
                  type = Some ''dimension'', mode = None\<rparr>]"

definition exComponentResolved :: "token list" where
  "exComponentResolved = [\<lparr>path = [''button'', ''radius''], val = VNum 8,
                   type = Some ''dimension'', mode = None\<rparr>]"

definition exTiers :: tiers where
  "exTiers = \<lparr>primitiveRefMap = buildRefMap exPrimitives,
               resolvedSemantic = exSemanticResolved,
               semanticRefMap = plainObject (refEntries exPrimitives ++ refEntries exSemanticResolved),
               resolvedComponent = exComponentResolved,
               allResolved = exSemanticResolved @ exComponentResolved\<rparr>"

definition exGenerators :: "(string \<times> generator \<times> token list) list" where
  "exGenerators =
     [(''colors'', Colors, exSemanticResolved @ exComponentResolved),
      (''sizing'', Sizing, exSemanticResolved @ exComponentResolved),
      (''typography'', Typography, exSemanticResolved @ exComponentResolved),
      (''radii'', Radii, exSemanticResolved @ exComponentResolved),
      (''shadows'', Shadows, exSemanticResolved @ exComponentResolved),
      (''borders'', Borders, exSemanticResolved @ exComponentResolved),
      (''opacity'', Opacity, exSemanticResolved @ exComponentResolved),
      (''z-index'', ZIndex, exSemanticResolved @ exComponentResolved),
      (''transitions'', Transitions, exSemanticResolved @ exComponentResolved),
      (''button'', CatchAll, exComponentResolved)]"






text \<open>The part of the text of a stylesheet that stands before the day of the run.\<close>

definition generatedPrefix :: string where
  "generatedPrefix =
     ''/* tokens.css '' @ emDash @ '' Generated from v2/tokens/*.json */\<newline>''
     @ ''/* Do not edit manually. Run: node scripts/generate.js */\<newline>''
     @ ''/* Generated: ''"




text \<open>A real between two bounds.\<close>

definition iv :: "real \<Rightarrow> real \<Rightarrow> real \<Rightarrow> bool" where
  "iv lo hi x = (lo \<le> x \<and> x \<le> hi)"

text \<open>
  The text of the three color components that \<^verbatim>\<open>hexToOklch\<close> writes for the channels
  \<open>r8\<close>, \<open>g8\<close> and \<open>b8\<close>: the computation of the function without its alpha part.
\<close>

definition oklchBody :: "fparith \<Rightarrow> (real \<Rightarrow> string) \<Rightarrow> int \<Rightarrow> int \<Rightarrow> int \<Rightarrow> string" where
  "oklchBody fp numStr r8 g8 b8 =
     (let r = fdiv fp (of_int r8) 255;
          g = fdiv fp (of_int g8) 255;
          b = fdiv fp (of_int b8) 255;
          lr = srgbToLinear fp r;
          lg = srgbToLinear fp g;
          lb = srgbToLinear fp b;
          (x, y, z) = linearRGBToXYZ fp lr lg lb;
          (L, a, bLab) = xyzToOKLab fp x y z;
          (Lch, C, H) = oklabToOKLCH fp L a bLab;
          Lpct = round' fp (fmul fp Lch 100) 2;
          Cround = round' fp C 4;
          Hround = round' fp H 1;
          isAchromatic = (Cround < lit fp 0.0005);
          chromaStr = (if isAchromatic then ''0'' else numStr Cround);
          hueStr = (if isAchromatic then ''none'' else numStr Hround)
      in numStr Lpct @ ''% '' @ chromaStr @ '' '' @ hueStr)"

section \<open>Properties of the resolver\<close>

lemma fullRefMatch_alias: "validRef p \<Longrightarrow> fullRefMatch (aliasText p) = Some p"
  by (simp add: fullRefMatch_def aliasText_def validRef_def)

lemma takeWhile_alias:
  "CHR ''}'' \<notin> set p \<Longrightarrow> takeWhile (\<lambda>x. x \<noteq> CHR ''}'') (p @ CHR ''}'' # post) = p"
  by (induction p) auto

lemma dropWhile_alias:
  "CHR ''}'' \<notin> set p \<Longrightarrow> dropWhile (\<lambda>x. x \<noteq> CHR ''}'') (p @ CHR ''}'' # post) = CHR ''}'' # post"
  by (induction p) auto

lemma splitRefs_alias:
  "validRef p \<Longrightarrow> splitRefs (aliasText p @ post) = Ref p # splitRefs post"
  by (simp add: aliasText_def validRef_def splitRefs.simps(2) takeWhile_alias dropWhile_alias Let_def)

lemma closedBraces_Cons: "closedBraces (c # cs) \<Longrightarrow> closedBraces cs"
proof -
  assume a: "closedBraces (c # cs)"
  show ?thesis
  proof (cases "CHR ''}'' \<in> set cs")
    case True
    then have "takeWhile (\<lambda>c. c \<noteq> CHR ''}'') (rev cs @ [c]) = takeWhile (\<lambda>c. c \<noteq> CHR ''}'') (rev cs)"
      by (simp add: takeWhile_append1)
    with a show ?thesis by (simp add: closedBraces_def)
  next
    case False
    have "takeWhile (\<lambda>c. c \<noteq> CHR ''}'') (rev cs @ [c]) = rev cs @ takeWhile (\<lambda>c. c \<noteq> CHR ''}'') [c]"
      by (rule takeWhile_append2) (use False in auto)
    with a have "CHR ''{'' \<notin> set (rev cs)" by (auto simp: closedBraces_def)
    then show ?thesis by (auto simp: closedBraces_def dest: set_takeWhileD)
  qed
qed

lemma closedBraces_suffix: "closedBraces (us @ vs) \<Longrightarrow> closedBraces vs"
  by (induction us) (auto dest: closedBraces_Cons)

lemma closedBraces_open:
  assumes "closedBraces (CHR ''{'' # cs)" shows "CHR ''}'' \<in> set cs"
proof (rule ccontr)
  assume n: "CHR ''}'' \<notin> set cs"
  then have "takeWhile (\<lambda>c. c \<noteq> CHR ''}'') (rev cs @ ''{'') = rev cs @ takeWhile (\<lambda>c. c \<noteq> CHR ''}'') ''{''"
    by (auto simp add: takeWhile_append2)
  with assms show False by (simp add: closedBraces_def)
qed

lemma splitRefs_append:
  "closedBraces pre \<Longrightarrow> splitRefs (pre @ s) = splitRefs pre @ splitRefs s"
proof (induction pre rule: splitRefs.induct)
  case 1
  then show ?case by simp
next
  case (2 c cs)
  let ?P = "\<lambda>x. x \<noteq> CHR ''}''"
  have clcs: "closedBraces cs" using "2.prems" by (rule closedBraces_Cons)
  show ?case
  proof (cases "c = CHR ''{'' \<and> takeWhile ?P cs \<noteq> [] \<and> dropWhile ?P cs \<noteq> []")
    case True
    then have mem: "CHR ''}'' \<in> set cs" by (auto simp: dropWhile_eq_Nil_conv)
    have tw: "takeWhile ?P (cs @ s) = takeWhile ?P cs"
      using mem by (simp add: takeWhile_append1)
    have dw: "dropWhile ?P (cs @ s) = dropWhile ?P cs @ s"
      using mem by (simp add: dropWhile_append1)
    have "cs = takeWhile ?P cs @ dropWhile ?P cs" by simp
    then have "closedBraces (dropWhile ?P cs)"
      using closedBraces_suffix clcs by metis
    then have cl: "closedBraces (tl (dropWhile ?P cs))"
      using True by (cases "dropWhile ?P cs") (auto dest: closedBraces_Cons)
    have ih: "splitRefs (tl (dropWhile ?P cs) @ s) = splitRefs (tl (dropWhile ?P cs)) @ splitRefs s"
      using "2.IH"(1)[OF refl refl _ cl] True by simp
    have tl: "tl (dropWhile ?P cs @ s) = tl (dropWhile ?P cs) @ s"
      using True by (cases "dropWhile ?P cs") auto
    have l: "splitRefs ((c # cs) @ s) = Ref (takeWhile ?P cs) # splitRefs (tl (dropWhile ?P cs) @ s)"
      using True by (simp add: splitRefs.simps(2) tw dw tl Let_def)
    have r: "splitRefs (c # cs) = Ref (takeWhile ?P cs) # splitRefs (tl (dropWhile ?P cs))"
      using True by (simp add: splitRefs.simps(2) Let_def)
    show ?thesis using l r ih by simp
  next
    case False
    have ih: "splitRefs (cs @ s) = splitRefs cs @ splitRefs s"
      using "2.IH"(2)[OF refl refl _ clcs] False by simp
    have notl: "\<not> (c = CHR ''{'' \<and> takeWhile ?P (cs @ s) \<noteq> [] \<and> dropWhile ?P (cs @ s) \<noteq> [])"
    proof (cases "c = CHR ''{''")
      case True
      with "2.prems" have mem: "CHR ''}'' \<in> set cs" by (simp add: closedBraces_open)
      have tw: "takeWhile ?P (cs @ s) = takeWhile ?P cs"
        using mem by (simp add: takeWhile_append1)
      have "dropWhile ?P cs \<noteq> []" using mem by (auto simp: dropWhile_eq_Nil_conv)
      with False True tw show ?thesis by simp
    next
      case False
      then show ?thesis by simp
    qed
    have l: "splitRefs ((c # cs) @ s) = Lit [c] # splitRefs (cs @ s)"
      using notl by (simp add: splitRefs.simps(2) Let_def)
    have r: "splitRefs (c # cs) = Lit [c] # splitRefs cs"
      using False by (simp add: splitRefs.simps(2) Let_def)
    show ?thesis using l r ih by simp
  qed
qed


lemma collect_append:
  "collect (xs @ ys) =
     (case collect xs of None \<Rightarrow> None
      | Some (a, wa) \<Rightarrow>
          (case collect ys of None \<Rightarrow> None | Some (b, wb) \<Rightarrow> Some (a @ b, wa @ wb)))"
  by (induction xs rule: collect.induct) (auto split: option.splits)

lemma collect_single: "collect [x] = x"
  by (cases x) auto

lemma resolveStr_append:
  "closedBraces pre \<Longrightarrow>
   resolveStr (Suc n) refMap (pre @ s) =
     (case resolveStr (Suc n) refMap pre of None \<Rightarrow> None
      | Some (a, wa) \<Rightarrow>
          (case resolveStr (Suc n) refMap s of None \<Rightarrow> None
           | Some (b, wb) \<Rightarrow> Some (a @ b, wa @ wb)))"
  by (simp add: splitRefs_append collect_append cong: option.case_cong)

lemma resolveStr_alias_absent:
  "validRef p \<Longrightarrow> refMap p = None \<Longrightarrow>
   resolveStr (Suc n) refMap (aliasText p @ post) =
     (case resolveStr (Suc n) refMap post of None \<Rightarrow> None
      | Some (b, wb) \<Rightarrow> Some (aliasText p @ b, unresolvedWarning p # wb))"
  by (simp add: splitRefs_alias split: option.splits)

lemma resolveStr_alias_present:
  "validRef p \<Longrightarrow> refMap p = Some v \<Longrightarrow>
   resolveStr (Suc n) refMap (aliasText p) = resolveStr n refMap (toStr v)"
  using splitRefs_alias[of p "[]"] by (simp add: collect_single)

lemma cycle_step:
  assumes "isAliasCycle refMap cyc" "p \<in> set cyc"
  shows "validRef p \<and> (\<exists>q \<in> set cyc. refMap p = Some (VStr (aliasText q)))"
proof -
  from assms(2) obtain i where i: "i < length cyc" "p = cyc ! i"
    by (auto simp: in_set_conv_nth)
  have "0 < length cyc" using i by auto
  then have "Suc i mod length cyc < length cyc" by simp
  then have "cyc ! (Suc i mod length cyc) \<in> set cyc" by simp
  moreover have "refMap p = Some (VStr (aliasText (cyc ! (Suc i mod length cyc))))"
    using assms(1) i by (simp add: isAliasCycle_def list_all_iff)
  moreover have "validRef p" using assms by (simp add: isAliasCycle_def list_all_iff)
  ultimately show ?thesis by blast
qed

lemma cycle_resolveStr_None:
  "isAliasCycle refMap cyc \<Longrightarrow> p \<in> set cyc \<Longrightarrow> resolveStr n refMap (aliasText p) = None"
proof (induction n arbitrary: p)
  case 0
  then show ?case by simp
next
  case (Suc n)
  from cycle_step[OF Suc.prems] obtain q where
    q: "validRef p" "q \<in> set cyc" "refMap p = Some (VStr (aliasText q))" by blast
  then show ?case
    using resolveStr_alias_present[of p refMap "VStr (aliasText q)" n] Suc.IH[OF Suc.prems(1) q(2)]
    by (simp del: resolveStr.simps)
qed

lemma cycle_deepResolveRefs_None:
  "isAliasCycle refMap cyc \<Longrightarrow> p \<in> set cyc \<Longrightarrow>
   deepResolveRefs n refMap (VStr (aliasText p)) = None"
proof (induction n arbitrary: p)
  case 0
  then show ?case by simp
next
  case (Suc n)
  from cycle_step[OF Suc.prems] obtain q where
    q: "validRef p" "q \<in> set cyc" "refMap p = Some (VStr (aliasText q))" by blast
  then show ?case
    using Suc.IH[OF Suc.prems(1) q(2)] by (simp add: fullRefMatch_alias)
qed

text \<open>
  The bound on the depth of calls never changes a result: what one bound returns, every
  larger bound returns, so a call has at most one result.
\<close>

lemma collect_mono:
  assumes "collect (map f xs) = Some r"
    and "\<And>x y. x \<in> set xs \<Longrightarrow> f x = Some y \<Longrightarrow> g x = Some y"
  shows "collect (map g xs) = Some r"
  using assms
proof (induction xs arbitrary: r)
  case Nil
  then show ?case by simp
next
  case (Cons x xs)
  from Cons.prems(1) obtain s w where fx: "f x = Some (s, w)"
    by (cases "f x") auto
  with Cons.prems(1) obtain s' w' where rest: "collect (map f xs) = Some (s', w')"
    and r: "r = (s @ s', w @ w')"
    by (auto split: option.splits)
  have "collect (map g xs) = Some (s', w')"
    using Cons.IH[OF rest] Cons.prems(2) by simp
  moreover have "g x = Some (s, w)" using Cons.prems(2)[of x] fx by simp
  ultimately show ?case using r by simp
qed

lemma resolveStr_mono:
  "resolveStr n refMap s = Some r \<Longrightarrow> resolveStr (Suc n) refMap s = Some r"
proof (induction n arbitrary: s r)
  case 0
  then show ?case by simp
next
  case (Suc n)
  have seg: "\<And>g y. resolveSeg n refMap g = Some y \<Longrightarrow> resolveSeg (Suc n) refMap g = Some y"
  proof -
    fix g y assume a: "resolveSeg n refMap g = Some y"
    show "resolveSeg (Suc n) refMap g = Some y"
    proof (cases g)
      case (Lit t)
      with a show ?thesis by simp
    next
      case (Ref ref)
      with a show ?thesis using Suc.IH
        by (cases "refMap ref") (simp_all del: resolveStr.simps)
    qed
  qed
  from Suc.prems have "collect (map (resolveSeg n refMap) (splitRefs s)) = Some r" by simp
  then have "collect (map (resolveSeg (Suc n) refMap) (splitRefs s)) = Some r"
    by (rule collect_mono) (rule seg)
  then show ?case by simp
qed

lemma collectFields_mono:
  assumes "collectFields (map (\<lambda>kv. (fst kv, f (snd kv))) kvs) = Some r"
    and "\<And>x y. x \<in> snd ` set kvs \<Longrightarrow> f x = Some y \<Longrightarrow> g x = Some y"
  shows "collectFields (map (\<lambda>kv. (fst kv, g (snd kv))) kvs) = Some r"
  using assms
proof (induction kvs arbitrary: r)
  case Nil
  then show ?case by simp
next
  case (Cons kv kvs)
  from Cons.prems(1) obtain v w where fx: "f (snd kv) = Some (v, w)"
    by (cases "f (snd kv)") auto
  with Cons.prems(1) obtain r' w' where
    rest: "collectFields (map (\<lambda>kv. (fst kv, f (snd kv))) kvs) = Some (r', w')"
    and r: "r = ((fst kv, v) # r', w @ w')"
    by (auto split: option.splits)
  have "collectFields (map (\<lambda>kv. (fst kv, g (snd kv))) kvs) = Some (r', w')"
    using Cons.IH[OF rest] Cons.prems(2) by simp
  moreover have "g (snd kv) = Some (v, w)" using Cons.prems(2)[of "snd kv"] fx by simp
  ultimately show ?case using r by simp
qed

lemma deepResolveRefs_mono:
  "deepResolveRefs n refMap v = Some r \<Longrightarrow> deepResolveRefs (Suc n) refMap v = Some r"
proof (induction n refMap v arbitrary: r rule: deepResolveRefs.induct)
  case (1 refMap v)
  then show ?case by simp
next
  case (2 n refMap s)
  show ?case
  proof (cases "fullRefMatch s")
    case None
    with "2.prems" have "resolveRefs (Suc n) refMap (VStr s) = Some r" by simp
    then obtain a w where a: "resolveStr (Suc n) refMap s = Some (a, w)" and r: "r = (VStr a, w)"
      by (auto simp add: resolveRefs_def simp del: resolveStr.simps)
    from resolveStr_mono[OF a] r None show ?thesis
      by (simp add: resolveRefs_def del: resolveStr.simps)
  next
    case (Some ref)
    show ?thesis
    proof (cases "refMap ref")
      case None
      with Some "2.prems" show ?thesis by simp
    next
      case (Some resolved)
      with \<open>fullRefMatch s = Some ref\<close> "2.prems" "2.IH"[of ref resolved r] show ?thesis by simp
    qed
  qed
next
  case (3 n refMap kvs)
  from "3.prems" obtain res w where
    c: "collectFields (map (\<lambda>kv. (fst kv, deepResolveRefs (Suc n) refMap (snd kv))) kvs) = Some (res, w)"
    and r: "r = (VObj (filter (\<lambda>kv. fst kv \<noteq> ''__proto__'') res), w)"
    by (auto split: option.splits)
  have "collectFields (map (\<lambda>kv. (fst kv, deepResolveRefs (Suc (Suc n)) refMap (snd kv))) kvs) = Some (res, w)"
    using c
  proof (rule collectFields_mono)
    fix x y assume "x \<in> snd ` set kvs" "deepResolveRefs (Suc n) refMap x = Some y"
    then show "deepResolveRefs (Suc (Suc n)) refMap x = Some y"
      using "3.IH" by (cases y) auto
  qed
  then show ?case using r by simp
qed simp_all

lemma resolveStr_fuel:
  assumes "resolveStr n refMap s = Some r" and "n \<le> m"
  shows "resolveStr m refMap s = Some r"
  using assms(2,1)
proof (induction m rule: dec_induct)
  case base
  then show ?case .
next
  case (step k)
  then show ?case by (simp add: resolveStr_mono del: resolveStr.simps)
qed

lemma deepResolveRefs_fuel:
  assumes "deepResolveRefs n refMap v = Some r" and "n \<le> m"
  shows "deepResolveRefs m refMap v = Some r"
  using assms(2,1)
proof (induction m rule: dec_induct)
  case base
  then show ?case .
next
  case (step k)
  then show ?case by (simp add: deepResolveRefs_mono del: deepResolveRefs.simps)
qed

lemma deepResolveRefs_unique:
  assumes "deepResolveRefs n refMap v = Some r" and "deepResolveRefs m refMap v = Some r'"
  shows "r = r'"
proof -
  have "deepResolveRefs (max n m) refMap v = Some r"
    using assms(1) by (rule deepResolveRefs_fuel) simp
  moreover have "deepResolveRefs (max n m) refMap v = Some r'"
    using assms(2) by (rule deepResolveRefs_fuel) simp
  ultimately show ?thesis by simp
qed

text \<open>
  A field or a text that does not return leaves the whole value without a result.
\<close>

lemma collectFields_None:
  "(k, None) \<in> set xs \<Longrightarrow> collectFields xs = None"
proof (induction xs rule: collectFields.induct)
  case 1
  then show ?case by simp
next
  case (2 k rest)
  then show ?case by simp
next
  case (3 k v w0 rest)
  then show ?case by (auto split: option.splits)
qed

lemma deepResolveRefs_field_None:
  assumes "(k, v) \<in> set kvs" and "deepResolveRefs n refMap v = None"
  shows "deepResolveRefs n refMap (VObj kvs) = None"
proof (cases n)
  case 0
  then show ?thesis by simp
next
  case (Suc m)
  have "(k, None) \<in> set (map (\<lambda>kv. (fst kv, deepResolveRefs (Suc m) refMap (snd kv))) kvs)"
    using assms Suc by force
  then show ?thesis using Suc by (simp add: collectFields_None)
qed

lemma resolveStr_embedded_None:
  assumes "closedBraces pre" and "validRef p" and "refMap p = Some v"
    and "resolveStr n refMap (toStr v) = None"
  shows "resolveStr (Suc n) refMap (pre @ aliasText p @ post) = None"
proof -
  have "splitRefs (pre @ aliasText p @ post) = splitRefs pre @ Ref p # splitRefs post"
    using assms(1,2) by (simp add: splitRefs_append splitRefs_alias)
  then show ?thesis using assms(3,4)
    by (simp add: collect_append split: option.splits)
qed

lemma splitRefs_Nil: "splitRefs s = [] \<Longrightarrow> s = []"
  by (cases s) (simp_all add: splitRefs.simps(2) Let_def split: if_splits)

lemma fullRefMatch_split:
  assumes "fullRefMatch s = Some p" shows "splitRefs s = [Ref p]"
proof -
  from assms obtain cs where s: "s = CHR ''{'' # cs" and cs: "cs \<noteq> []"
    "last cs = CHR ''}''" "butlast cs \<noteq> []" "CHR ''}'' \<notin> set (butlast cs)" "p = butlast cs"
    by (auto simp: fullRefMatch_def split: list.splits if_splits)
  have "cs = butlast cs @ [last cs]" using cs(1) by simp
  then have "s = aliasText p @ []" using s cs by (simp add: aliasText_def)
  moreover have "validRef p" using cs by (simp add: validRef_def)
  ultimately show ?thesis using splitRefs_alias[of p "[]"] by simp
qed

lemma fullRefMatch_embedded:
  assumes "closedBraces pre" and "validRef p" and "pre \<noteq> [] \<or> post \<noteq> []"
  shows "fullRefMatch (pre @ aliasText p @ post) = None"
proof (rule ccontr)
  assume "fullRefMatch (pre @ aliasText p @ post) \<noteq> None"
  then obtain r where "fullRefMatch (pre @ aliasText p @ post) = Some r" by auto
  then have "splitRefs (pre @ aliasText p @ post) = [Ref r]" by (rule fullRefMatch_split)
  moreover have "splitRefs (pre @ aliasText p @ post) = splitRefs pre @ Ref p # splitRefs post"
    using assms(1,2) by (simp add: splitRefs_append splitRefs_alias)
  ultimately have "splitRefs pre = []" "splitRefs post = []"
    by (simp_all add: append_eq_Cons_conv)
  then have "pre = []" "post = []" by (auto dest: splitRefs_Nil)
  with assms(3) show False by simp
qed

lemma cycle_embedded_None:
  assumes "isAliasCycle refMap cyc" and "p \<in> set cyc" and "closedBraces pre"
  shows "resolveStr n refMap (pre @ aliasText p @ post) = None"
    and "deepResolveRefs n refMap (VStr (pre @ aliasText p @ post)) = None"
proof -
  from cycle_step[OF assms(1,2)] obtain q where
    q: "validRef p" "q \<in> set cyc" "refMap p = Some (VStr (aliasText q))" by blast
  show s: "resolveStr n refMap (pre @ aliasText p @ post) = None"
  proof (cases n)
    case 0
    then show ?thesis by simp
  next
    case (Suc k)
    have "resolveStr k refMap (toStr (VStr (aliasText q))) = None"
      using cycle_resolveStr_None[OF assms(1) q(2)] by simp
    from resolveStr_embedded_None[OF assms(3) q(1) q(3) this] Suc show ?thesis by simp
  qed
  show "deepResolveRefs n refMap (VStr (pre @ aliasText p @ post)) = None"
  proof (cases "pre = [] \<and> post = []")
    case True
    then show ?thesis using cycle_deepResolveRefs_None[OF assms(1,2)] by simp
  next
    case False
    then have f: "fullRefMatch (pre @ aliasText p @ post) = None"
      using fullRefMatch_embedded[OF assms(3) q(1)] by blast
    show ?thesis
    proof (cases n)
      case 0
      then show ?thesis by simp
    next
      case (Suc k)
      then show ?thesis using f s by (simp add: resolveRefs_def del: resolveStr.simps)
    qed
  qed
qed

lemma cycle_chain_None:
  assumes "isAliasCycle refMap cyc" and "p \<in> set cyc"
    and "validRef q" and "refMap q = Some (VStr (aliasText p))"
  shows "deepResolveRefs n refMap (VStr (aliasText q)) = None"
    and "resolveRefs n refMap (VStr (aliasText q)) = None"
proof -
  show "deepResolveRefs n refMap (VStr (aliasText q)) = None"
  proof (cases n)
    case 0
    then show ?thesis by simp
  next
    case (Suc k)
    then show ?thesis
      using assms(3,4) cycle_deepResolveRefs_None[OF assms(1,2), of k]
      by (simp add: fullRefMatch_alias)
  qed
  show "resolveRefs n refMap (VStr (aliasText q)) = None"
  proof (cases n)
    case 0
    then show ?thesis by (simp add: resolveRefs_def)
  next
    case (Suc k)
    then show ?thesis
      using resolveStr_alias_present[of q refMap "VStr (aliasText p)" k, OF assms(3,4)]
        cycle_resolveStr_None[OF assms(1,2), of k]
      by (simp add: resolveRefs_def del: resolveStr.simps)
  qed
qed

lemma cycABC_cycle: "isAliasCycle cycABC [''A'', ''B'']"
  by (simp add: isAliasCycle_def cycABC_def validRef_def aliasText_def upt_rec)

lemma cycAB_cycle: "isAliasCycle cycAB [''A'', ''B'']"
  by (simp add: isAliasCycle_def cycAB_def validRef_def aliasText_def upt_rec)

text \<open>
  Claim C1, as the code has it. The resolver keeps no set of visited paths and raises no
  error of its own: on a lookup that holds a cyclic alias chain, resolving the alias of
  any path of the cycle exceeds every bound on the depth of calls, in the three-tier
  resolver \<open>deepResolveRefs\<close> and in the flat one \<open>resolveRefs\<close> alike. It returns
  no value and no cyclic-reference error. The same holds for a value that reaches the
  cycle: a text with such an alias inside, a composite with such an alias in a field,
  and the alias of a path outside the cycle whose value is such an alias.
\<close>

theorem cyclic_alias_never_returns:
  assumes "isAliasCycle refMap cyc" and "p \<in> set cyc"
  shows "deepResolveRefs n refMap (VStr (aliasText p)) = None
       \<and> resolveRefs n refMap (VStr (aliasText p)) = None
       \<and> (closedBraces pre \<longrightarrow>
            deepResolveRefs n refMap (VStr (pre @ aliasText p @ post)) = None
          \<and> resolveRefs n refMap (VStr (pre @ aliasText p @ post)) = None)
       \<and> ((k, VStr (aliasText p)) \<in> set kvs \<longrightarrow> deepResolveRefs n refMap (VObj kvs) = None)
       \<and> (validRef q \<and> refMap q = Some (VStr (aliasText p)) \<longrightarrow>
            deepResolveRefs n refMap (VStr (aliasText q)) = None
          \<and> resolveRefs n refMap (VStr (aliasText q)) = None)"
proof -
  have a: "deepResolveRefs n refMap (VStr (aliasText p)) = None"
    using assms by (rule cycle_deepResolveRefs_None)
  have b: "resolveRefs n refMap (VStr (aliasText p)) = None"
    using assms by (simp add: cycle_resolveStr_None resolveRefs_def)
  have c: "closedBraces pre \<longrightarrow>
            deepResolveRefs n refMap (VStr (pre @ aliasText p @ post)) = None
          \<and> resolveRefs n refMap (VStr (pre @ aliasText p @ post)) = None"
    using cycle_embedded_None[OF assms] by (simp add: resolveRefs_def)
  have d: "(k, VStr (aliasText p)) \<in> set kvs \<longrightarrow> deepResolveRefs n refMap (VObj kvs) = None"
    using deepResolveRefs_field_None[OF _ a] by blast
  have e: "validRef q \<and> refMap q = Some (VStr (aliasText p)) \<longrightarrow>
            deepResolveRefs n refMap (VStr (aliasText q)) = None
          \<and> resolveRefs n refMap (VStr (aliasText q)) = None"
    using cycle_chain_None[OF assms] by blast
  from a b c d e show ?thesis by blast
qed

theorem cyclic_alias_never_returns_witness:
  "isAliasCycle cycABC [''A'', ''B''] \<and> ''A'' \<in> set [''A'', ''B'']
   \<and> closedBraces ''1px solid ''
   \<and> (''color'', VStr ''{A}'') \<in> set [(''width'', VStr ''1px''), (''color'', VStr ''{A}'')]
   \<and> validRef ''C'' \<and> cycABC ''C'' = Some (VStr ''{A}'')
   \<and> deepResolveRefs 7 cycABC (VStr ''{A}'') = None
   \<and> resolveRefs 7 cycABC (VStr ''{A}'') = None
   \<and> deepResolveRefs 7 cycABC (VStr ''1px solid {A}'') = None
   \<and> deepResolveRefs 7 cycABC (VObj [(''width'', VStr ''1px''), (''color'', VStr ''{A}'')]) = None
   \<and> deepResolveRefs 7 cycABC (VStr ''{C}'') = None"
proof -
  have m: "''A'' \<in> set [''A'', ''B'']" by simp
  have c: "closedBraces ''1px solid ''" by (simp add: closedBraces_def)
  have f: "(''color'', VStr ''{A}'') \<in> set [(''width'', VStr ''1px''), (''color'', VStr ''{A}'')]"
    by simp
  have v: "validRef ''C''" by (simp add: validRef_def)
  have l: "cycABC ''C'' = Some (VStr ''{A}'')" by (simp add: cycABC_def)
  have e: "aliasText ''A'' = ''{A}''" "aliasText ''C'' = ''{C}''"
    "''1px solid '' @ ''{A}'' @ [] = ''1px solid {A}''"
    by (simp_all add: aliasText_def)
  from cyclic_alias_never_returns[OF cycABC_cycle m, where n=7 and pre="''1px solid ''"
         and post="[]" and k="''color''"
         and kvs="[(''width'', VStr ''1px''), (''color'', VStr ''{A}'')]" and q="''C''"]
  show ?thesis using cycABC_cycle c f v l unfolding e by simp
qed

text \<open>
  The claim C1 as stated fails: with \<open>A\<close> the alias of \<open>B\<close> and \<open>B\<close> the alias of
  \<open>A\<close>, no depth of calls lets the resolution of \<open>{A}\<close> return.
\<close>

theorem cyclic_alias_no_error_counterexample:
  "\<not> (\<exists>n r. deepResolveRefs n cycAB (VStr ''{A}'') = Some r)"
  using cycle_deepResolveRefs_None[OF cycAB_cycle, of "''A''"]
  by (simp add: aliasText_def)

lemma collectFields_keys:
  "collectFields xs = Some (kvs, w) \<Longrightarrow> map fst kvs = map fst xs"
proof (induction xs arbitrary: kvs w rule: collectFields.induct)
  case 1
  then show ?case by simp
next
  case (2 k rest)
  then show ?case by simp
next
  case (3 k v w0 rest)
  then show ?case by (auto split: option.splits)
qed

text \<open>
  Claim C2, as the code has it. In the three-tier pipeline (\<open>deepResolveRefs\<close>) a value
  that is exactly one alias \<open>{P}\<close>, with \<open>P\<close> in the lookup, resolves to what the value
  of \<open>P\<close> resolves to, with the same warnings: a number stays that number, and a
  composite without a key \<^verbatim>\<open>__proto__\<close> stays a composite with the same keys. In the
  flat-alias pipeline (\<open>resolveRefs\<close>) the value of \<open>P\<close> is turned into a string first,
  so the result is always a string.
\<close>

theorem full_alias_resolution:
  assumes "validRef p" and "refMap p = Some v"
  shows "deepResolveRefs (Suc n) refMap (VStr (aliasText p)) = deepResolveRefs n refMap v
       \<and> (\<forall>k. v = VNum k \<longrightarrow>
             deepResolveRefs (Suc (Suc n)) refMap (VStr (aliasText p)) = Some (VNum k, []))
       \<and> (\<forall>kvs r w. v = VObj kvs \<longrightarrow> ''__proto__'' \<notin> set (map fst kvs) \<longrightarrow>
             deepResolveRefs (Suc n) refMap (VStr (aliasText p)) = Some (r, w) \<longrightarrow>
             (\<exists>kvs'. r = VObj kvs' \<and> map fst kvs' = map fst kvs))
       \<and> (stringable v \<longrightarrow>
            resolveRefs (Suc n) refMap (VStr (aliasText p))
              = map_option (\<lambda>(s, w). (VStr s, w)) (resolveStr n refMap (toStr v)))"
proof -
  have a: "deepResolveRefs (Suc n) refMap (VStr (aliasText p)) = deepResolveRefs n refMap v"
    using assms by (simp add: fullRefMatch_alias)
  have b: "\<forall>k. v = VNum k \<longrightarrow>
             deepResolveRefs (Suc (Suc n)) refMap (VStr (aliasText p)) = Some (VNum k, [])"
    using assms by (simp add: fullRefMatch_alias)
  have c: "\<forall>kvs r w. v = VObj kvs \<longrightarrow> ''__proto__'' \<notin> set (map fst kvs) \<longrightarrow>
             deepResolveRefs (Suc n) refMap (VStr (aliasText p)) = Some (r, w) \<longrightarrow>
             (\<exists>kvs'. r = VObj kvs' \<and> map fst kvs' = map fst kvs)"
  proof (intro allI impI)
    fix kvs r w
    assume v: "v = VObj kvs" and np: "''__proto__'' \<notin> set (map fst kvs)"
      and res: "deepResolveRefs (Suc n) refMap (VStr (aliasText p)) = Some (r, w)"
    from res a v have r: "deepResolveRefs n refMap (VObj kvs) = Some (r, w)" by simp
    then obtain m where m: "n = Suc m" by (cases n) auto
    from r m obtain res' where
      k: "collectFields (map (\<lambda>kv. (fst kv, deepResolveRefs (Suc m) refMap (snd kv))) kvs)
            = Some (res', w)"
      and r': "r = VObj (filter (\<lambda>kv. fst kv \<noteq> ''__proto__'') res')"
      by (auto split: option.splits)
    from collectFields_keys[OF k] have keys: "map fst res' = map fst kvs" by (simp add: comp_def)
    with np have "\<forall>kv \<in> set res'. fst kv \<noteq> ''__proto__''" by (metis image_eqI set_map)
    then have "filter (\<lambda>kv. fst kv \<noteq> ''__proto__'') res' = res'" by simp
    with r' keys show "\<exists>kvs'. r = VObj kvs' \<and> map fst kvs' = map fst kvs" by simp
  qed
  have d: "stringable v \<longrightarrow>
            resolveRefs (Suc n) refMap (VStr (aliasText p))
              = map_option (\<lambda>(s, w). (VStr s, w)) (resolveStr n refMap (toStr v))"
    using assms resolveStr_alias_present[of p refMap v n]
    by (simp add: resolveRefs_def del: resolveStr.simps)
  from a b c d show ?thesis by blast
qed

theorem full_alias_resolution_witness:
  "validRef ''font.weight.semibold''
   \<and> weightMap ''font.weight.semibold'' = Some (VNum 600)
   \<and> stringable (VNum 600)
   \<and> deepResolveRefs (Suc (Suc 0)) weightMap (VStr ''{font.weight.semibold}'')
       = Some (VNum 600, [])
   \<and> resolveRefs (Suc (Suc 0)) weightMap (VStr ''{font.weight.semibold}'')
       = map_option (\<lambda>(s, w). (VStr s, w)) (resolveStr (Suc 0) weightMap (toStr (VNum 600)))
   \<and> validRef ''shadow.base''
   \<and> shadowMap ''shadow.base''
       = Some (VObj [(''offsetX'', VStr ''0px''), (''color'', VStr ''{color.black}'')])
   \<and> ''__proto__'' \<notin> set (map fst [(''offsetX'', VStr ''0px''), (''color'', VStr ''{color.black}'')])
   \<and> deepResolveRefs (Suc (Suc (Suc 0))) shadowMap (VStr ''{shadow.base}'')
       = Some (VObj [(''offsetX'', VStr ''0px''), (''color'', VStr ''#000'')], [])
   \<and> (\<exists>kvs'. VObj [(''offsetX'', VStr ''0px''), (''color'', VStr ''#000'')] = VObj kvs'
         \<and> map fst kvs' = map fst [(''offsetX'', VStr ''0px''), (''color'', VStr ''{color.black}'')])"
proof -
  have v: "validRef ''font.weight.semibold''" by (simp add: validRef_def)
  have m: "weightMap ''font.weight.semibold'' = Some (VNum 600)" by (simp add: weightMap_def)
  have s: "stringable (VNum 600)" by simp
  have e: "aliasText ''font.weight.semibold'' = ''{font.weight.semibold}''"
    by (simp add: aliasText_def)
  have v2: "validRef ''shadow.base''" by (simp add: validRef_def)
  have m2: "shadowMap ''shadow.base''
       = Some (VObj [(''offsetX'', VStr ''0px''), (''color'', VStr ''{color.black}'')])"
    by (simp add: shadowMap_def)
  have np: "''__proto__'' \<notin> set (map fst [(''offsetX'', VStr ''0px''), (''color'', VStr ''{color.black}'')])"
    by simp
  have e2: "aliasText ''shadow.base'' = ''{shadow.base}''" by (simp add: aliasText_def)
  have r2: "deepResolveRefs (Suc (Suc (Suc 0))) shadowMap (VStr ''{shadow.base}'')
       = Some (VObj [(''offsetX'', VStr ''0px''), (''color'', VStr ''#000'')], [])"
    unfolding shadowMap_def by code_simp
  have k2: "\<exists>kvs'. VObj [(''offsetX'', VStr ''0px''), (''color'', VStr ''#000'')] = VObj kvs'
         \<and> map fst kvs' = map fst [(''offsetX'', VStr ''0px''), (''color'', VStr ''{color.black}'')]"
    using full_alias_resolution[where p="''shadow.base''" and refMap=shadowMap
         and n="Suc (Suc 0)", OF v2 m2] r2 np unfolding e2 by blast
  from full_alias_resolution[where p="''font.weight.semibold''" and refMap=weightMap
         and v="VNum 600" and n=0, OF v m]
       full_alias_resolution[where p="''font.weight.semibold''" and refMap=weightMap
         and v="VNum 600" and n="Suc 0", OF v m] v m s
  have k1: "deepResolveRefs (Suc (Suc 0)) weightMap (VStr ''{font.weight.semibold}'')
       = Some (VNum 600, [])
   \<and> resolveRefs (Suc (Suc 0)) weightMap (VStr ''{font.weight.semibold}'')
       = map_option (\<lambda>(s, w). (VStr s, w)) (resolveStr (Suc 0) weightMap (toStr (VNum 600)))"
    unfolding e by blast
  from k1 k2 v m s v2 m2 np r2 show ?thesis by blast
qed

text \<open>
  The claim C2 as stated fails in the flat-alias pipeline: the alias of a path whose
  value is the number 600 resolves to the string \<open>600\<close>, not to the number.
\<close>

theorem flat_alias_stringifies_counterexample:
  "resolveRefs 2 weightMap (VStr ''{font.weight.semibold}'') = Some (VStr ''600'', [])
   \<and> VStr ''600'' \<noteq> VNum 600"
  unfolding weightMap_def by code_simp

text \<open>
  An alias for which the lookup answers \<^verbatim>\<open>undefined\<close> stays in the result as it is, with
  one warning, and the resolution goes on: as a full value in both resolvers, and as an
  occurrence inside a longer text, where what stands before and after it is resolved as
  usual. The lookup built from a list of tokens, none of the joined path \<^verbatim>\<open>__proto__\<close>,
  answers \<^verbatim>\<open>undefined\<close> for a name that is no token's joined path and that a plain object
  does not inherit.
\<close>

lemma absent_alias_kept:
  assumes "validRef p" and "refMap p = None"
  shows "deepResolveRefs (Suc n) refMap (VStr (aliasText p))
           = Some (VStr (aliasText p), [unresolvedWarning p])
       \<and> resolveRefs (Suc n) refMap (VStr (aliasText p))
           = Some (VStr (aliasText p), [unresolvedWarning p])
       \<and> (closedBraces pre \<longrightarrow>
            resolveStr (Suc n) refMap (pre @ aliasText p @ post) =
              (case resolveStr (Suc n) refMap pre of None \<Rightarrow> None
               | Some (a, wa) \<Rightarrow>
                  (case resolveStr (Suc n) refMap post of None \<Rightarrow> None
                   | Some (b, wb) \<Rightarrow>
                       Some (a @ aliasText p @ b, wa @ unresolvedWarning p # wb))))"
proof -
  have a: "resolveStr (Suc n) refMap (aliasText p) = Some (aliasText p, [unresolvedWarning p])"
    using assms resolveStr_alias_absent[of p refMap n "[]"] by simp
  have b: "deepResolveRefs (Suc n) refMap (VStr (aliasText p))
           = Some (VStr (aliasText p), [unresolvedWarning p])"
    using assms by (simp add: fullRefMatch_alias)
  have c: "resolveRefs (Suc n) refMap (VStr (aliasText p))
           = Some (VStr (aliasText p), [unresolvedWarning p])"
    using a by (simp add: resolveRefs_def del: resolveStr.simps)
  have d: "closedBraces pre \<longrightarrow>
            resolveStr (Suc n) refMap (pre @ aliasText p @ post) =
              (case resolveStr (Suc n) refMap pre of None \<Rightarrow> None
               | Some (a, wa) \<Rightarrow>
                  (case resolveStr (Suc n) refMap post of None \<Rightarrow> None
                   | Some (b, wb) \<Rightarrow>
                       Some (a @ aliasText p @ b, wa @ unresolvedWarning p # wb)))"
    using assms resolveStr_append[of pre n refMap "aliasText p @ post"]
      resolveStr_alias_absent[of p refMap n post]
    by (auto simp del: resolveStr.simps split: option.splits)
  from b c d show ?thesis by blast
qed


lemma absent_alias_kept_example:
  "validRef ''x.y'' \<and> fourMap ''x.y'' = None \<and> closedBraces ''a {w} b ''
   \<and> deepResolveRefs (Suc 0) fourMap (VStr ''{x.y}'')
       = Some (VStr ''{x.y}'', [''  Warning: unresolved reference {x.y}''])
   \<and> resolveStr (Suc (Suc 0)) fourMap ''a {w} b {x.y} c''
       = Some (''a 4 b {x.y} c'', [''  Warning: unresolved reference {x.y}''])"
proof -
  have v: "validRef ''x.y''" by (simp add: validRef_def)
  have m: "fourMap ''x.y'' = None" by (simp add: fourMap_def)
  have c: "closedBraces ''a {w} b ''" by (simp add: closedBraces_def)
  have e: "aliasText ''x.y'' = ''{x.y}''" by (simp add: aliasText_def)
  have w: "unresolvedWarning ''x.y'' = ''  Warning: unresolved reference {x.y}''"
    by (simp add: unresolvedWarning_def aliasText_def)
  have pre: "resolveStr (Suc (Suc 0)) fourMap ''a {w} b '' = Some (''a 4 b '', [])"
    unfolding fourMap_def by code_simp
  have post: "resolveStr (Suc (Suc 0)) fourMap '' c'' = Some ('' c'', [])"
    unfolding fourMap_def by code_simp
  from absent_alias_kept[where p="''x.y''" and refMap=fourMap and n=0
         and pre="''a {w} b ''" and post="'' c''", OF v m]
       absent_alias_kept[where p="''x.y''" and refMap=fourMap and n="Suc 0"
         and pre="''a {w} b ''" and post="'' c''", OF v m] v m c
  show ?thesis unfolding e w pre post by simp
qed

lemma refEntries_snoc:
  "refEntries (ts @ [t]) =
     (if refKey t = ''__proto__'' then refEntries ts else (refEntries ts)(refKey t \<mapsto> val t))"
  by (simp add: refEntries_def)

lemma refEntries_entry:
  "refEntries ts k = Some v \<Longrightarrow> \<exists>t \<in> set ts. refKey t = k \<and> val t = v"
proof (induction ts arbitrary: v rule: rev_induct)
  case Nil
  then show ?case by (simp add: refEntries_def)
next
  case (snoc t ts)
  then show ?case by (auto simp: refEntries_snoc split: if_splits)
qed

lemma plainObject_entry:
  "plainObject own k = Some v \<Longrightarrow> own k = Some v \<or> objectPrototype k = Some v"
  by (auto simp: plainObject_def map_add_Some_iff)

lemma buildRefMap_absent:
  assumes "\<forall>t \<in> set ts. refKey t \<noteq> p" and "objectPrototype p = None" and "noProtoPath ts"
  shows "buildRefMap ts p = None"
proof (cases "buildRefMap ts p")
  case None
  then show ?thesis .
next
  case (Some v)
  from plainObject_entry[OF Some[unfolded buildRefMap_def]] assms(2)
  have "refEntries ts p = Some v" by simp
  from refEntries_entry[OF this] assms(1) show ?thesis by blast
qed

text \<open>
  Claim C3, at an input where the code does not do what the claim says. The lookup is a
  plain object and the resolver tests \<^verbatim>\<open>refMap[ref] === undefined\<close>, so a name every object
  inherits is never unresolved. With a lookup built from the one token \<^verbatim>\<open>space.base\<close>,
  the alias \<^verbatim>\<open>{constructor}\<close> of a path no token has is neither kept nor warned about:
  the three-tier resolver returns the function \<^verbatim>\<open>Object\<close>, without a warning, and
  \<^verbatim>\<open>{__proto__}\<close> resolves to an empty object; the flat resolver returns the text of the
  function, also inside a longer text, and its one warning is about the braces of that
  text, which it reads as a reference.
\<close>

theorem inherited_name_is_resolved:
  "deepResolveRefs 2 (buildRefMap exPrimitives) (VStr ''{constructor}'')
     = Some (VFun ''Object'', [])
   \<and> deepResolveRefs 2 (buildRefMap exPrimitives) (VStr ''{__proto__}'') = Some (VObj [], [])
   \<and> resolveRefs 2 (buildRefMap exPrimitives) (VStr ''{constructor}'')
     = Some (VStr ''function Object() { [native code] }'',
             [''  Warning: unresolved reference { [native code] }''])
   \<and> resolveRefs 2 (buildRefMap exPrimitives) (VStr ''1px solid {toString}'')
     = Some (VStr ''1px solid function toString() { [native code] }'',
             [''  Warning: unresolved reference { [native code] }''])"
  unfolding buildRefMap_def plainObject_def refEntries_def exPrimitives_def objectPrototype_def
    inheritedFunctions_def refKey_def
  by code_simp

section \<open>Properties of the three-tier pipeline\<close>

lemma buildRefMap_entry:
  "buildRefMap ts k = Some v \<Longrightarrow>
   (\<exists>t \<in> set ts. refKey t = k \<and> val t = v) \<or> objectPrototype k = Some v"
  using plainObject_entry[of "refEntries ts" k v] refEntries_entry[of ts k v]
  by (auto simp: buildRefMap_def)

lemma refEntries_present:
  assumes "p \<in> set ts" and "noProtoPath ts"
  shows "\<exists>q \<in> set ts. refKey q = refKey p \<and> refEntries ts (refKey p) = Some (val q)"
  using assms
proof (induction ts rule: rev_induct)
  case Nil
  then show ?case by simp
next
  case (snoc t ts)
  have np: "refKey t \<noteq> ''__proto__''" "noProtoPath ts"
    using snoc.prems(2) by (simp_all add: noProtoPath_def)
  show ?case
  proof (cases "refKey t = refKey p")
    case True
    then have "refEntries (ts @ [t]) (refKey p) = Some (val t)"
      using np by (simp add: refEntries_snoc)
    with True show ?thesis by auto
  next
    case False
    then have "p \<in> set ts" using snoc.prems(1) by auto
    from snoc.IH[OF this np(2)] obtain q where
      q: "q \<in> set ts" "refKey q = refKey p" "refEntries ts (refKey p) = Some (val q)" by blast
    have "refEntries (ts @ [t]) (refKey p) = Some (val q)"
      using q(3) False np by (simp add: refEntries_snoc)
    with q show ?thesis by auto
  qed
qed

lemma refKey_map: "map refKey xs = map (joinWith ''.'') (map path xs)"
  by (induction xs) (simp_all add: refKey_def)

lemma plainObject_own: "own k = Some v \<Longrightarrow> plainObject own k = Some v"
  by (simp add: plainObject_def map_add_Some_iff)

lemma resolveTierTokens_shape:
  "resolveTierTokens n ts refMap = Some (rs, w) \<Longrightarrow>
   map path rs = map path ts \<and> map type rs = map type ts \<and> map mode rs = map mode ts"
proof (induction ts arbitrary: rs w)
  case Nil
  then show ?case by simp
next
  case (Cons t ts)
  then show ?case by (auto split: option.splits)
qed

lemma resolveTierTokens_values:
  "resolveTierTokens n ts refMap = Some (rs, w) \<Longrightarrow>
   list_all2 (\<lambda>t r. \<exists>w'. deepResolveRefs n refMap (val t) = Some (val r, w')) ts rs"
proof (induction ts arbitrary: rs w)
  case Nil
  then show ?case by simp
next
  case (Cons t ts)
  then show ?case by (auto split: option.splits)
qed

lemma splitRefs_text: "concat (map segText (splitRefs s)) = s"
proof (induction s rule: splitRefs.induct)
  case 1
  then show ?case by simp
next
  case (2 c cs)
  let ?P = "\<lambda>x. x \<noteq> CHR ''}''"
  show ?case
  proof (cases "c = CHR ''{'' \<and> takeWhile ?P cs \<noteq> [] \<and> dropWhile ?P cs \<noteq> []")
    case True
    then obtain r where r: "dropWhile ?P cs = CHR ''}'' # r"
      using hd_dropWhile[of ?P cs] by (cases "dropWhile ?P cs") auto
    have ih: "concat (map segText (splitRefs r)) = r"
      using "2.IH"(1)[OF refl refl] True r by simp
    have "cs = takeWhile ?P cs @ CHR ''}'' # r"
      using takeWhile_dropWhile_id[of ?P cs] r by simp
    then have "c # cs = aliasText (takeWhile ?P cs) @ r"
      using True by (simp add: aliasText_def)
    moreover have "splitRefs (c # cs) = Ref (takeWhile ?P cs) # splitRefs r"
      using True r by (simp add: splitRefs.simps(2) Let_def)
    ultimately show ?thesis using ih by simp
  next
    case False
    have ih: "concat (map segText (splitRefs cs)) = cs"
      using "2.IH"(2)[OF refl refl] False by simp
    have "splitRefs (c # cs) = Lit [c] # splitRefs cs"
      using False by (simp add: splitRefs.simps(2) Let_def)
    then show ?thesis using ih by simp
  qed
qed

lemma collect_lits:
  "list_all isLit gs \<Longrightarrow> collect (map (resolveSeg n refMap) gs) = Some (concat (map segText gs), [])"
proof (induction gs)
  case Nil
  then show ?case by simp
next
  case (Cons g gs)
  then show ?case by (cases g) auto
qed

lemma resolveStr_noRefs:
  "list_all isLit (splitRefs s) \<Longrightarrow> resolveStr (Suc n) refMap s = Some (s, [])"
  by (simp add: collect_lits splitRefs_text)

lemma collectFields_same:
  "list_all (\<lambda>kv. f kv = Some (snd kv, [])) kvs \<Longrightarrow>
   collectFields (map (\<lambda>kv. (fst kv, f kv)) kvs) = Some (kvs, [])"
  by (induction kvs) auto

lemma deepResolveRefs_noRefs:
  "noRefs v \<Longrightarrow> deepResolveRefs (Suc n) refMap v = Some (v, [])"
proof (induction v)
  case (VStr s)
  then have lits: "list_all isLit (splitRefs s)" by simp
  have "fullRefMatch s = None"
  proof (cases "fullRefMatch s")
    case (Some p)
    from fullRefMatch_split[OF Some] lits show ?thesis by simp
  qed simp
  then show ?case using resolveStr_noRefs[OF lits, of n refMap]
    by (simp add: resolveRefs_def del: resolveStr.simps)
next
  case (VObj kvs)
  have "list_all (\<lambda>kv. deepResolveRefs (Suc n) refMap (snd kv) = Some (snd kv, [])) kvs"
    unfolding list_all_iff
  proof
    fix kv assume kv: "kv \<in> set kvs"
    have "snd kv \<in> Basic_BNFs.snds kv" by (cases kv) simp
    moreover have "noRefs (snd kv)" using VObj.prems kv by (simp add: list_all_iff)
    ultimately show "deepResolveRefs (Suc n) refMap (snd kv) = Some (snd kv, [])"
      using VObj.IH kv by blast
  qed
  from collectFields_same[of "\<lambda>kv. deepResolveRefs (Suc n) refMap (snd kv)" kvs, OF this]
  have c: "collectFields (map (\<lambda>kv. (fst kv, deepResolveRefs (Suc n) refMap (snd kv))) kvs)
             = Some (kvs, [])" .
  have "filter (\<lambda>kv. fst kv \<noteq> ''__proto__'') kvs = kvs"
    using VObj.prems by (simp add: list_all_iff)
  with c show ?case by simp
qed simp_all

lemma resolveTierTokens_noRefs:
  "list_all (\<lambda>t. noRefs (val t)) ts \<Longrightarrow> resolveTierTokens (Suc n) ts refMap = Some (ts, [])"
  by (induction ts) (auto simp: deepResolveRefs_noRefs simp del: deepResolveRefs.simps)

lemma resolveTierTokens_depth:
  "resolveTierTokens n ts refMap = Some (rs, w) \<Longrightarrow> ts \<noteq> [] \<Longrightarrow> \<exists>m. n = Suc m"
  by (cases ts; cases n) (auto split: option.splits)

lemma resolveThreeTier_parts:
  assumes "resolveThreeTier n primT semT compT = Some (t, w)"
  obtains semR w1 compR w2 where
    "resolveTierTokens n semT (buildRefMap primT) = Some (semR, w1)"
    "resolveTierTokens n compT (plainObject (refEntries primT ++ refEntries semR)) = Some (compR, w2)"
    "t = \<lparr>primitiveRefMap = buildRefMap primT, resolvedSemantic = semR,
          semanticRefMap = plainObject (refEntries primT ++ refEntries semR),
          resolvedComponent = compR, allResolved = semR @ compR\<rparr>"
    "w = w1 @ w2"
  using assms by (auto simp: resolveThreeTier_def split: option.splits)

lemma resolveThreeTier_noRefs:
  assumes "list_all (\<lambda>x. noRefs (val x)) (semT @ compT)"
  shows "resolveThreeTier (Suc n) primT semT compT =
           Some (\<lparr>primitiveRefMap = buildRefMap primT, resolvedSemantic = semT,
                  semanticRefMap = plainObject (refEntries primT ++ refEntries semT),
                  resolvedComponent = compT, allResolved = semT @ compT\<rparr>, [])"
  using assms by (simp add: resolveThreeTier_def resolveTierTokens_noRefs)

text \<open>
  The result of the three-tier resolution does not depend on the bound either.
\<close>

lemma resolveTierTokens_fuel:
  "resolveTierTokens n ts refMap = Some r \<Longrightarrow> n \<le> m \<Longrightarrow> resolveTierTokens m ts refMap = Some r"
proof (induction ts arbitrary: r)
  case Nil
  then show ?case by simp
next
  case (Cons t ts)
  from Cons.prems(1) obtain v w ts' w' where
    d: "deepResolveRefs n refMap (val t) = Some (v, w)" and
    rest: "resolveTierTokens n ts refMap = Some (ts', w')" and
    r: "r = (t\<lparr>val := v\<rparr> # ts', w @ w')"
    by (auto split: option.splits)
  from deepResolveRefs_fuel[OF d Cons.prems(2)] Cons.IH[OF rest Cons.prems(2)] r
  show ?case by simp
qed

lemma resolveThreeTier_fuel:
  assumes "resolveThreeTier n primT semT compT = Some (t, w)" and "n \<le> m"
  shows "resolveThreeTier m primT semT compT = Some (t, w)"
proof -
  from assms(1) obtain semR w1 compR w2 where
    s: "resolveTierTokens n semT (buildRefMap primT) = Some (semR, w1)" and
    c: "resolveTierTokens n compT (plainObject (refEntries primT ++ refEntries semR))
          = Some (compR, w2)" and
    r: "t = \<lparr>primitiveRefMap = buildRefMap primT, resolvedSemantic = semR,
              semanticRefMap = plainObject (refEntries primT ++ refEntries semR),
              resolvedComponent = compR, allResolved = semR @ compR\<rparr>" "w = w1 @ w2"
    by (rule resolveThreeTier_parts)
  from resolveTierTokens_fuel[OF s assms(2)] resolveTierTokens_fuel[OF c assms(2)] r
  show ?thesis by (simp add: resolveThreeTier_def)
qed

lemma exTiers_run:
  "resolveThreeTier (Suc (Suc 0)) exPrimitives exSemantic exComponent = Some (exTiers, [])"
proof -
  have p: "buildRefMap exPrimitives ''space.base'' = Some (VNum 8)"
    by (simp add: buildRefMap_def plainObject_def refEntries_def exPrimitives_def refKey_def)
  have a: "resolveTierTokens (Suc (Suc 0)) exSemantic (buildRefMap exPrimitives)
             = Some (exSemanticResolved, [])"
    by (simp add: exSemantic_def exSemanticResolved_def fullRefMatch_def p)
  have q: "plainObject (refEntries exPrimitives ++ refEntries exSemanticResolved)
             ''radius.radius-20'' = Some (VNum 8)"
    by (simp add: plainObject_def refEntries_def exPrimitives_def exSemanticResolved_def
        refKey_def)
  have b: "resolveTierTokens (Suc (Suc 0)) exComponent
             (plainObject (refEntries exPrimitives ++ refEntries exSemanticResolved))
             = Some (exComponentResolved, [])"
    by (simp add: exComponent_def exComponentResolved_def fullRefMatch_def q)
  show ?thesis by (simp add: resolveThreeTier_def a b exTiers_def)
qed

text \<open>
  Claim C9. When the three-tier resolution returns, on plain primitive and semantic
  tokens: the lookup for the semantic tier is
  built from the primitive tokens alone (it answers for the key of every primitive
  token, and whatever it answers is the value of a primitive token of that key or what
  every plain object inherits); the lookup for the component tier is that lookup
  overridden by the resolved semantic tokens, in the same sense. So a token of a tier is
  not in the lookup that resolves its own tier: the lookup answers \<^verbatim>\<open>undefined\<close> for its
  key, unless an earlier tier has a token of that key or the key is an inherited name.
  And the lookups and the resolved semantic tier are the same whatever the component
  tier is, and stand unchanged at the head of the token list the generators receive.
\<close>

theorem three_tier_lookup_scopes:
  assumes "resolveThreeTier n primT semT compT = Some (t, w)"
    and "plainTokens primT" and "plainTokens semT"
  shows "primitiveRefMap t = buildRefMap primT
       \<and> (\<forall>p \<in> set primT. \<exists>q \<in> set primT. refKey q = refKey p
              \<and> primitiveRefMap t (refKey p) = Some (val q))
       \<and> (\<forall>k v. primitiveRefMap t k = Some v \<longrightarrow>
              (\<exists>p \<in> set primT. refKey p = k \<and> val p = v) \<or> objectPrototype k = Some v)
       \<and> (\<forall>s \<in> set semT. (\<forall>p \<in> set primT. refKey p \<noteq> refKey s) \<longrightarrow>
              objectPrototype (refKey s) = None \<longrightarrow> primitiveRefMap t (refKey s) = None)
       \<and> (\<exists>w1. resolveTierTokens n semT (primitiveRefMap t) = Some (resolvedSemantic t, w1))
       \<and> semanticRefMap t = plainObject (refEntries primT ++ refEntries (resolvedSemantic t))
       \<and> (\<forall>s \<in> set (resolvedSemantic t). \<exists>q \<in> set (resolvedSemantic t). refKey q = refKey s
              \<and> semanticRefMap t (refKey s) = Some (val q))
       \<and> (\<forall>k v. semanticRefMap t k = Some v \<longrightarrow>
              (\<exists>p \<in> set primT \<union> set (resolvedSemantic t). refKey p = k \<and> val p = v)
              \<or> objectPrototype k = Some v)
       \<and> (\<forall>c \<in> set compT.
              (\<forall>p \<in> set primT \<union> set (resolvedSemantic t). refKey p \<noteq> refKey c) \<longrightarrow>
              objectPrototype (refKey c) = None \<longrightarrow> semanticRefMap t (refKey c) = None)
       \<and> (\<exists>w2. resolveTierTokens n compT (semanticRefMap t) = Some (resolvedComponent t, w2))
       \<and> (\<forall>compT' t' w'. resolveThreeTier n primT semT compT' = Some (t', w') \<longrightarrow>
              primitiveRefMap t' = primitiveRefMap t
              \<and> resolvedSemantic t' = resolvedSemantic t
              \<and> semanticRefMap t' = semanticRefMap t)
       \<and> take (length (resolvedSemantic t)) (allResolved t) = resolvedSemantic t"
proof -
  from assms(1) obtain semR w1 compR w2 where
    s: "resolveTierTokens n semT (buildRefMap primT) = Some (semR, w1)" and
    c: "resolveTierTokens n compT (plainObject (refEntries primT ++ refEntries semR))
          = Some (compR, w2)" and
    t: "t = \<lparr>primitiveRefMap = buildRefMap primT, resolvedSemantic = semR,
              semanticRefMap = plainObject (refEntries primT ++ refEntries semR),
              resolvedComponent = compR, allResolved = semR @ compR\<rparr>"
    by (rule resolveThreeTier_parts)
  have keys: "map refKey semR = map refKey semT"
    using resolveTierTokens_shape[OF s] by (simp only: refKey_map)
  have npS: "noProtoPath semR"
  proof -
    have "refKey ` set semR = refKey ` set semT" using keys by (metis set_map)
    then have "\<forall>x \<in> set semR. refKey x \<in> refKey ` set semT" by blast
    then show ?thesis using assms(3) unfolding plainTokens_def noProtoPath_def list_all_iff
      by force
  qed
  have npP: "noProtoPath primT" using assms(2) by (simp add: plainTokens_def)
  have p1: "primitiveRefMap t = buildRefMap primT" using t by simp
  have p2: "\<forall>p \<in> set primT. \<exists>q \<in> set primT. refKey q = refKey p
              \<and> primitiveRefMap t (refKey p) = Some (val q)"
  proof
    fix p assume "p \<in> set primT"
    from refEntries_present[OF this npP] obtain q where
      "q \<in> set primT" "refKey q = refKey p" "refEntries primT (refKey p) = Some (val q)"
      by blast
    then show "\<exists>q \<in> set primT. refKey q = refKey p \<and> primitiveRefMap t (refKey p) = Some (val q)"
      using t by (auto simp: buildRefMap_def plainObject_own)
  qed
  have p3: "\<forall>k v. primitiveRefMap t k = Some v \<longrightarrow>
              (\<exists>p \<in> set primT. refKey p = k \<and> val p = v) \<or> objectPrototype k = Some v"
    using p1 buildRefMap_entry by simp
  have p4: "\<forall>s \<in> set semT. (\<forall>p \<in> set primT. refKey p \<noteq> refKey s) \<longrightarrow>
              objectPrototype (refKey s) = None \<longrightarrow> primitiveRefMap t (refKey s) = None"
    using p1 buildRefMap_absent[OF _ _ npP] by simp
  have p5: "\<exists>w1. resolveTierTokens n semT (primitiveRefMap t) = Some (resolvedSemantic t, w1)"
    using s t by simp
  have p6: "semanticRefMap t = plainObject (refEntries primT ++ refEntries (resolvedSemantic t))"
    using t by simp
  have p7: "\<forall>s \<in> set (resolvedSemantic t). \<exists>q \<in> set (resolvedSemantic t). refKey q = refKey s
              \<and> semanticRefMap t (refKey s) = Some (val q)"
  proof
    fix x assume "x \<in> set (resolvedSemantic t)"
    then have "x \<in> set semR" using t by simp
    from refEntries_present[OF this npS] obtain q where
      "q \<in> set semR" "refKey q = refKey x" "refEntries semR (refKey x) = Some (val q)"
      by blast
    then show "\<exists>q \<in> set (resolvedSemantic t). refKey q = refKey x
                 \<and> semanticRefMap t (refKey x) = Some (val q)"
      using t by (auto simp: plainObject_own map_add_Some_iff)
  qed
  have p8: "\<forall>k v. semanticRefMap t k = Some v \<longrightarrow>
              (\<exists>p \<in> set primT \<union> set (resolvedSemantic t). refKey p = k \<and> val p = v)
              \<or> objectPrototype k = Some v"
  proof (intro allI impI)
    fix k v assume "semanticRefMap t k = Some v"
    then have "plainObject (refEntries primT ++ refEntries semR) k = Some v" using t by simp
    from plainObject_entry[OF this]
    have "refEntries semR k = Some v \<or> refEntries primT k = Some v \<or> objectPrototype k = Some v"
      by (auto simp: map_add_Some_iff)
    then show "(\<exists>p \<in> set primT \<union> set (resolvedSemantic t). refKey p = k \<and> val p = v)
                 \<or> objectPrototype k = Some v"
      using refEntries_entry[of semR k v] refEntries_entry[of primT k v] t by auto
  qed
  have p9: "\<forall>c \<in> set compT.
              (\<forall>p \<in> set primT \<union> set (resolvedSemantic t). refKey p \<noteq> refKey c) \<longrightarrow>
              objectPrototype (refKey c) = None \<longrightarrow> semanticRefMap t (refKey c) = None"
  proof (intro ballI impI)
    fix x assume a: "\<forall>p \<in> set primT \<union> set (resolvedSemantic t). refKey p \<noteq> refKey x"
      and b: "objectPrototype (refKey x) = None"
    show "semanticRefMap t (refKey x) = None"
    proof (cases "semanticRefMap t (refKey x)")
      case None
      then show ?thesis .
    next
      case (Some v)
      with p8 a b show ?thesis by force
    qed
  qed
  have p10: "\<exists>w2. resolveTierTokens n compT (semanticRefMap t) = Some (resolvedComponent t, w2)"
    using c t by simp
  have p11: "\<forall>compT' t' w'. resolveThreeTier n primT semT compT' = Some (t', w') \<longrightarrow>
              primitiveRefMap t' = primitiveRefMap t
              \<and> resolvedSemantic t' = resolvedSemantic t
              \<and> semanticRefMap t' = semanticRefMap t"
    using s t by (auto simp: resolveThreeTier_def split: option.splits)
  have p12: "take (length (resolvedSemantic t)) (allResolved t) = resolvedSemantic t"
    using t by simp
  from p1 p2 p3 p4 p5 p6 p7 p8 p9 p10 p11 p12 show ?thesis by blast
qed

theorem three_tier_lookup_scopes_witness:
  "resolveThreeTier (Suc (Suc 0)) exPrimitives exSemantic exComponent = Some (exTiers, [])
   \<and> plainTokens exPrimitives \<and> plainTokens exSemantic
   \<and> primitiveRefMap exTiers = buildRefMap exPrimitives
   \<and> primitiveRefMap exTiers ''space.base'' = Some (VNum 8)
   \<and> primitiveRefMap exTiers ''radius.radius-20'' = None
   \<and> semanticRefMap exTiers ''radius.radius-20'' = Some (VNum 8)
   \<and> semanticRefMap exTiers ''button.radius'' = None
   \<and> take (length (resolvedSemantic exTiers)) (allResolved exTiers) = resolvedSemantic exTiers"
proof -
  have np: "plainTokens exPrimitives" "plainTokens exSemantic"
    by (simp_all add: plainTokens_def noProtoPath_def exPrimitives_def exSemantic_def refKey_def)
  note th = three_tier_lookup_scopes[OF exTiers_run np]
  have a: "primitiveRefMap exTiers = buildRefMap exPrimitives" using th by blast
  have b: "primitiveRefMap exTiers ''space.base'' = Some (VNum 8)"
  proof -
    have "\<forall>p \<in> set exPrimitives. \<exists>q \<in> set exPrimitives. refKey q = refKey p
              \<and> primitiveRefMap exTiers (refKey p) = Some (val q)"
      using th by blast
    then show ?thesis by (simp add: exPrimitives_def refKey_def)
  qed
  have c: "primitiveRefMap exTiers ''radius.radius-20'' = None"
  proof -
    have "\<forall>s \<in> set exSemantic. (\<forall>p \<in> set exPrimitives. refKey p \<noteq> refKey s) \<longrightarrow>
              objectPrototype (refKey s) = None \<longrightarrow> primitiveRefMap exTiers (refKey s) = None"
      using th by blast
    then show ?thesis
      by (simp add: exPrimitives_def exSemantic_def refKey_def objectPrototype_def
          inheritedFunctions_def)
  qed
  have d: "semanticRefMap exTiers ''radius.radius-20'' = Some (VNum 8)"
  proof -
    have "\<forall>s \<in> set (resolvedSemantic exTiers). \<exists>q \<in> set (resolvedSemantic exTiers).
              refKey q = refKey s \<and> semanticRefMap exTiers (refKey s) = Some (val q)"
      using th by blast
    then show ?thesis by (simp add: exTiers_def exSemanticResolved_def refKey_def)
  qed
  have e: "semanticRefMap exTiers ''button.radius'' = None"
  proof -
    have "\<forall>c \<in> set exComponent.
              (\<forall>p \<in> set exPrimitives \<union> set (resolvedSemantic exTiers). refKey p \<noteq> refKey c) \<longrightarrow>
              objectPrototype (refKey c) = None \<longrightarrow> semanticRefMap exTiers (refKey c) = None"
      using th by blast
    then show ?thesis
      by (simp add: exPrimitives_def exComponent_def exTiers_def exSemanticResolved_def refKey_def
          objectPrototype_def inheritedFunctions_def)
  qed
  have f: "take (length (resolvedSemantic exTiers)) (allResolved exTiers) = resolvedSemantic exTiers"
    using th by blast
  from exTiers_run np a b c d e f show ?thesis by blast
qed

lemma alist_update_subset: "set (AList.update k v al) \<subseteq> insert (k, v) (set al)"
  by (induct al) auto

lemma addToGroup_members:
  assumes "addToGroup t gs = Inr gs'"
    and "\<forall>g \<in> set gs. \<forall>x \<in> set (snd g). x \<in> A \<and> groupOf x = fst g"
    and "t \<in> A"
  shows "\<forall>g \<in> set gs'. \<forall>x \<in> set (snd g). x \<in> A \<and> groupOf x = fst g"
proof (cases "map_of gs (groupOf t)")
  case None
  with assms(1) have "gs' = gs @ [(groupOf t, [t])]"
    by (auto simp: addToGroup_def split: if_splits)
  with assms(2,3) show ?thesis by auto
next
  case (Some ts)
  with assms(1) have gs': "gs' = AList.update (groupOf t) (ts @ [t]) gs"
    by (simp add: addToGroup_def)
  have old: "(groupOf t, ts) \<in> set gs" using Some by (rule map_of_SomeD)
  show ?thesis
  proof (intro ballI)
    fix g x assume g: "g \<in> set gs'" and x: "x \<in> set (snd g)"
    from g gs' have "g = (groupOf t, ts @ [t]) \<or> g \<in> set gs"
      using alist_update_subset[of "groupOf t" "ts @ [t]" gs] by auto
    then show "x \<in> A \<and> groupOf x = fst g"
    proof
      assume "g = (groupOf t, ts @ [t])"
      with x old assms(2,3) show ?thesis by force
    next
      assume "g \<in> set gs"
      with x assms(2) show ?thesis by blast
    qed
  qed
qed

lemma groupTokens_members:
  assumes "groupTokens ts gs = Inr gs'"
    and "\<forall>g \<in> set gs. \<forall>x \<in> set (snd g). x \<in> A \<and> groupOf x = fst g"
    and "set ts \<subseteq> A"
  shows "\<forall>g \<in> set gs'. \<forall>x \<in> set (snd g). x \<in> A \<and> groupOf x = fst g"
  using assms
proof (induction ts arbitrary: gs)
  case Nil
  then show ?case by simp
next
  case (Cons t ts)
  from Cons.prems(1) obtain gs1 where
    a: "addToGroup t gs = Inr gs1" and r: "groupTokens ts gs1 = Inr gs'"
    by (auto split: sum.splits)
  have "t \<in> A" using Cons.prems(3) by simp
  from addToGroup_members[OF a Cons.prems(2) this]
  have "\<forall>g \<in> set gs1. \<forall>x \<in> set (snd g). x \<in> A \<and> groupOf x = fst g" .
  from Cons.IH[OF r this] Cons.prems(3) show ?case by simp
qed

lemma set_entriesOrder: "set (entriesOrder m) = set m"
  by (auto simp: entriesOrder_def)

lemma threeTierGenerators_shape:
  assumes "threeTierGenerators toks = Inr gens"
  shows "map (\<lambda>g. (fst (snd g), snd (snd g))) (take 9 gens) =
           [(Colors, toks), (Sizing, toks), (Typography, toks), (Radii, toks), (Shadows, toks),
            (Borders, toks), (Opacity, toks), (ZIndex, toks), (Transitions, toks)]
       \<and> (\<forall>g \<in> set (drop 9 gens). fst (snd g) = CatchAll
              \<and> (\<forall>x \<in> set (snd (snd g)). x \<in> set toks \<and> \<not> hasStandardPrefix x
                    \<and> groupOf x = fst g))"
proof (cases "filter (\<lambda>t. \<not> hasStandardPrefix t) toks = []")
  case True
  with assms show ?thesis by (auto simp: threeTierGenerators_def Let_def)
next
  case False
  let ?rem = "filter (\<lambda>t. \<not> hasStandardPrefix t) toks"
  from assms False obtain groups where
    g: "groupTokens ?rem [] = Inr groups" and
    gens: "gens = [(''colors'', Colors, toks), (''sizing'', Sizing, toks),
             (''typography'', Typography, toks), (''radii'', Radii, toks),
             (''shadows'', Shadows, toks), (''borders'', Borders, toks),
             (''opacity'', Opacity, toks), (''z-index'', ZIndex, toks),
             (''transitions'', Transitions, toks)]
            @ map (\<lambda>(group, tokens). (group, CatchAll, tokens)) (entriesOrder groups)"
    by (auto simp: threeTierGenerators_def Let_def split: sum.splits)
  have m: "\<forall>g \<in> set groups. \<forall>x \<in> set (snd g). x \<in> set ?rem \<and> groupOf x = fst g"
    by (rule groupTokens_members[OF g]) simp_all
  have d: "drop 9 gens = map (\<lambda>(group, tokens). (group, CatchAll, tokens)) (entriesOrder groups)"
    using gens by simp
  have "\<forall>g \<in> set (drop 9 gens). fst (snd g) = CatchAll
              \<and> (\<forall>x \<in> set (snd (snd g)). x \<in> set toks \<and> \<not> hasStandardPrefix x
                    \<and> groupOf x = fst g)"
    unfolding d using m by (auto simp: set_entriesOrder)
  moreover have "map (\<lambda>g. (fst (snd g), snd (snd g))) (take 9 gens) =
           [(Colors, toks), (Sizing, toks), (Typography, toks), (Radii, toks), (Shadows, toks),
            (Borders, toks), (Opacity, toks), (ZIndex, toks), (Transitions, toks)]"
    using gens by simp
  ultimately show ?thesis by blast
qed

lemma exGenerators_list:
  "threeTierGenerators (exSemanticResolved @ exComponentResolved) = Inr exGenerators"
  unfolding exSemanticResolved_def exComponentResolved_def exGenerators_def
  by code_simp

lemma exGenerators_run:
  "buildThreeTierGenerators (Suc (Suc 0)) exPrimitives exSemantic exComponent
     = Some (Inr exGenerators, [])"
  by (simp add: buildThreeTierGenerators_def exTiers_run exTiers_def exGenerators_list)

text \<open>
  Claim C10. When \<^verbatim>\<open>buildThreeTierGenerators\<close> returns its list, on plain primitive and
  semantic tokens: the token list the
  generators are built on is the resolved semantic tier followed by the resolved
  component tier, which has exactly the paths, types and modes of the semantic and
  component tokens, in their order, and no token of the primitive tier. Each of the
  nine standard generators is passed that whole list; every further generator is the
  catch-all one and is passed tokens of that list only, those of one group without a
  standard prefix. When no semantic or component value holds a reference (or a key
  \<^verbatim>\<open>__proto__\<close>), the list of generators is built from the semantic and component tokens
  themselves, and is the same whatever the primitive tokens are: a primitive's value
  comes in through a reference only.
\<close>

theorem generators_see_no_primitives:
  assumes "buildThreeTierGenerators n primT semT compT = Some (Inr gens, w)"
    and "plainTokens primT" and "plainTokens semT"
  shows "\<exists>t. resolveThreeTier n primT semT compT = Some (t, w)
         \<and> allResolved t = resolvedSemantic t @ resolvedComponent t
         \<and> map path (allResolved t) = map path (semT @ compT)
         \<and> map type (allResolved t) = map type (semT @ compT)
         \<and> map mode (allResolved t) = map mode (semT @ compT)
         \<and> map (\<lambda>g. (fst (snd g), snd (snd g))) (take 9 gens) =
             [(Colors, allResolved t), (Sizing, allResolved t), (Typography, allResolved t),
              (Radii, allResolved t), (Shadows, allResolved t), (Borders, allResolved t),
              (Opacity, allResolved t), (ZIndex, allResolved t), (Transitions, allResolved t)]
         \<and> (\<forall>g \<in> set (drop 9 gens). fst (snd g) = CatchAll
                \<and> (\<forall>x \<in> set (snd (snd g)). x \<in> set (allResolved t) \<and> \<not> hasStandardPrefix x
                      \<and> groupOf x = fst g))
         \<and> (\<forall>g \<in> set gens. set (snd (snd g)) \<subseteq> set (allResolved t))
         \<and> (list_all (\<lambda>x. noRefs (val x)) (semT @ compT) \<longrightarrow>
               allResolved t = semT @ compT
               \<and> (\<forall>primT' m. buildThreeTierGenerators (Suc m) primT' semT compT
                                = Some (Inr gens, [])))"
proof -
  from assms(1) obtain t where
    run: "resolveThreeTier n primT semT compT = Some (t, w)" and
    gens: "threeTierGenerators (allResolved t) = Inr gens"
    by (auto simp: buildThreeTierGenerators_def split: option.splits)
  from run obtain semR w1 compR w2 where
    s: "resolveTierTokens n semT (buildRefMap primT) = Some (semR, w1)" and
    c: "resolveTierTokens n compT (plainObject (refEntries primT ++ refEntries semR))
          = Some (compR, w2)" and
    t: "t = \<lparr>primitiveRefMap = buildRefMap primT, resolvedSemantic = semR,
              semanticRefMap = plainObject (refEntries primT ++ refEntries semR),
              resolvedComponent = compR, allResolved = semR @ compR\<rparr>"
    by (rule resolveThreeTier_parts)
  have a: "allResolved t = resolvedSemantic t @ resolvedComponent t" using t by simp
  have b: "map path (allResolved t) = map path (semT @ compT)"
    "map type (allResolved t) = map type (semT @ compT)"
    "map mode (allResolved t) = map mode (semT @ compT)"
    using resolveTierTokens_shape[OF s] resolveTierTokens_shape[OF c] t by simp_all
  note sh = threeTierGenerators_shape[OF gens]
  have g1: "map (\<lambda>g. (fst (snd g), snd (snd g))) (take 9 gens) =
             [(Colors, allResolved t), (Sizing, allResolved t), (Typography, allResolved t),
              (Radii, allResolved t), (Shadows, allResolved t), (Borders, allResolved t),
              (Opacity, allResolved t), (ZIndex, allResolved t), (Transitions, allResolved t)]"
    using sh by blast
  have g2: "\<forall>g \<in> set (drop 9 gens). fst (snd g) = CatchAll
                \<and> (\<forall>x \<in> set (snd (snd g)). x \<in> set (allResolved t) \<and> \<not> hasStandardPrefix x
                      \<and> groupOf x = fst g)"
    using sh by blast
  have g3: "\<forall>g \<in> set gens. set (snd (snd g)) \<subseteq> set (allResolved t)"
  proof
    fix g assume "g \<in> set gens"
    then have "g \<in> set (take 9 gens) \<or> g \<in> set (drop 9 gens)"
      using append_take_drop_id[of 9 gens] by (metis Un_iff set_append)
    then show "set (snd (snd g)) \<subseteq> set (allResolved t)"
    proof
      assume "g \<in> set (take 9 gens)"
      then have "(fst (snd g), snd (snd g)) \<in> set (map (\<lambda>g. (fst (snd g), snd (snd g))) (take 9 gens))"
        by (simp only: set_map) (rule imageI)
      then have "snd (snd g) = allResolved t" unfolding g1 by auto
      then show ?thesis by simp
    next
      assume "g \<in> set (drop 9 gens)"
      with g2 show ?thesis by blast
    qed
  qed
  have d: "list_all (\<lambda>x. noRefs (val x)) (semT @ compT) \<longrightarrow>
               allResolved t = semT @ compT
               \<and> (\<forall>primT' m. buildThreeTierGenerators (Suc m) primT' semT compT
                                = Some (Inr gens, []))"
  proof
    assume nr: "list_all (\<lambda>x. noRefs (val x)) (semT @ compT)"
    have "semR = semT"
    proof (cases "semT = []")
      case True
      with s show ?thesis by simp
    next
      case False
      from resolveTierTokens_depth[OF s False] obtain m where "n = Suc m" by blast
      with s resolveTierTokens_noRefs[of semT m "buildRefMap primT"] nr show ?thesis by simp
    qed
    moreover have "compR = compT"
    proof (cases "compT = []")
      case True
      with c show ?thesis by simp
    next
      case False
      from resolveTierTokens_depth[OF c False] obtain m where "n = Suc m" by blast
      with c resolveTierTokens_noRefs[of compT m
               "plainObject (refEntries primT ++ refEntries semR)"] nr
      show ?thesis by simp
    qed
    ultimately have all: "allResolved t = semT @ compT" using t by simp
    have "\<forall>primT' m. buildThreeTierGenerators (Suc m) primT' semT compT = Some (Inr gens, [])"
      using resolveThreeTier_noRefs[OF nr] gens all
      by (simp add: buildThreeTierGenerators_def)
    with all show "allResolved t = semT @ compT
               \<and> (\<forall>primT' m. buildThreeTierGenerators (Suc m) primT' semT compT
                                = Some (Inr gens, []))" by blast
  qed
  show ?thesis by (intro exI[of _ t] conjI run a b g1 g2 g3 d)
qed

lemma exGenerators_literal_run:
  "buildThreeTierGenerators (Suc 0) exPrimitives exSemanticResolved exComponentResolved
     = Some (Inr exGenerators, [])"
proof -
  have "list_all (\<lambda>x. noRefs (val x)) (exSemanticResolved @ exComponentResolved)"
    by (simp add: exSemanticResolved_def exComponentResolved_def)
  from resolveThreeTier_noRefs[OF this] show ?thesis
    by (simp add: buildThreeTierGenerators_def exGenerators_list)
qed

theorem generators_see_no_primitives_witness:
  "buildThreeTierGenerators (Suc (Suc 0)) exPrimitives exSemantic exComponent
     = Some (Inr exGenerators, [])
   \<and> plainTokens exPrimitives \<and> plainTokens exSemantic \<and> plainTokens exSemanticResolved
   \<and> (\<exists>t. resolveThreeTier (Suc (Suc 0)) exPrimitives exSemantic exComponent = Some (t, [])
         \<and> map path (allResolved t) = [[''radius'', ''radius-20''], [''button'', ''radius'']]
         \<and> list_all (\<lambda>g. set (snd (snd g)) \<subseteq> set (allResolved t)) exGenerators)
   \<and> buildThreeTierGenerators (Suc 0) exPrimitives exSemanticResolved exComponentResolved
     = Some (Inr exGenerators, [])
   \<and> list_all (\<lambda>x. noRefs (val x)) (exSemanticResolved @ exComponentResolved)
   \<and> buildThreeTierGenerators (Suc 0) [] exSemanticResolved exComponentResolved
     = Some (Inr exGenerators, [])"
proof -
  have e: "map path (exSemantic @ exComponent) = [[''radius'', ''radius-20''], [''button'', ''radius'']]"
    by (simp add: exSemantic_def exComponent_def)
  have n: "list_all (\<lambda>x. noRefs (val x)) (exSemanticResolved @ exComponentResolved)"
    by (simp add: exSemanticResolved_def exComponentResolved_def)
  have pl: "plainTokens exPrimitives" "plainTokens exSemantic" "plainTokens exSemanticResolved"
    by (simp_all add: plainTokens_def noProtoPath_def exPrimitives_def exSemantic_def
        exSemanticResolved_def refKey_def)
  from generators_see_no_primitives[OF exGenerators_run pl(1,2)] obtain t where
    t: "resolveThreeTier (Suc (Suc 0)) exPrimitives exSemantic exComponent = Some (t, [])"
       "map path (allResolved t) = map path (exSemantic @ exComponent)"
       "\<forall>g \<in> set exGenerators. set (snd (snd g)) \<subseteq> set (allResolved t)"
    by blast
  have a: "\<exists>t. resolveThreeTier (Suc (Suc 0)) exPrimitives exSemantic exComponent = Some (t, [])
         \<and> map path (allResolved t) = [[''radius'', ''radius-20''], [''button'', ''radius'']]
         \<and> list_all (\<lambda>g. set (snd (snd g)) \<subseteq> set (allResolved t)) exGenerators"
  proof (intro exI[of _ t] conjI)
    show "resolveThreeTier (Suc (Suc 0)) exPrimitives exSemantic exComponent = Some (t, [])"
      by (rule t(1))
    show "map path (allResolved t) = [[''radius'', ''radius-20''], [''button'', ''radius'']]"
      using t(2) by (simp only: e)
    show "list_all (\<lambda>g. set (snd (snd g)) \<subseteq> set (allResolved t)) exGenerators"
      using t(3) by (simp only: list_all_iff)
  qed
  from generators_see_no_primitives[OF exGenerators_literal_run pl(1,3)] n
  have "\<forall>primT' m. buildThreeTierGenerators (Suc m) primT' exSemanticResolved exComponentResolved
          = Some (Inr exGenerators, [])"
    by blast
  then have b: "buildThreeTierGenerators (Suc 0) [] exSemanticResolved exComponentResolved
     = Some (Inr exGenerators, [])" by blast
  from exGenerators_run pl a exGenerators_literal_run n b show ?thesis by blast
qed

section \<open>Properties of the dual-theme collapse\<close>



























section \<open>Properties of the assembler\<close>

text \<open>
  Claim C4, as the code has it. The text of the stylesheet is a function of the results
  of the generators, the two flags and the day of the run, which the third line of the
  header carries: for fixed generator results and flags, the texts of any two runs are
  the same fixed header, the day of each run, and one common remainder.
\<close>

theorem assemble_differs_in_date_only:
  "\<exists>rest. \<forall>today. assemble OKLCH_ENABLED MODERN_CSS_ENABLED today generators
             = generatedPrefix @ today @ rest"
proof -
  obtain xs where xs: "xs =
       (if OKLCH_ENABLED \<and> oklchColors (collectVars generators) \<noteq> []
        then oklchSections (oklchColors (collectVars generators)) else [])
       @ (if MODERN_CSS_ENABLED
          then modernSections OKLCH_ENABLED (root' (collectVars generators))
                 (dark (collectVars generators)) (light (collectVars generators))
          else [])" by blast
  have "\<forall>today. assemble OKLCH_ENABLED MODERN_CSS_ENABLED today generators
      = generatedPrefix @ today @
        ('' */\<newline>\<newline>'' @
         joinWith ''\<newline>''
           ([('':root {'' @ joinWith ''\<newline>'' (root' (collectVars generators)) @ ''\<newline>}\<newline>''),
             (''.dark {'' @ joinWith ''\<newline>'' (dark (collectVars generators)) @ ''\<newline>}\<newline>''),
             (''.light {'' @ joinWith ''\<newline>'' (light (collectVars generators)) @ ''\<newline>}\<newline>''),
             ''/* OS preference fallback (when no .dark/.light class is set) */'',
             ''@media (prefers-color-scheme: dark) {\<newline>  :root:not(.dark):not(.light) {''
               @ nestIndent (dark (collectVars generators)) @ ''\<newline>  }\<newline>}\<newline>'',
             ''@media (prefers-color-scheme: light) {\<newline>  :root:not(.dark):not(.light) {''
               @ nestIndent (light (collectVars generators)) @ ''\<newline>  }\<newline>}''] @ xs))"
    unfolding assemble_def Let_def generatedPrefix_def xs[symmetric] by simp
  then show ?thesis by blast
qed

text \<open>
  The claim C4 as stated fails: the same (empty) generator results and flags give two
  different texts on two different days.
\<close>

theorem assemble_date_counterexample:
  "assemble False False ''2026-11-02'' [] \<noteq> assemble False False ''2026-11-03'' []"
  by (simp add: assemble_def collectVars_def)

section \<open>Properties of the radius generators\<close>
















section \<open>Properties of the color space converter\<close>

lemma accurate_rnd: "accurate fp \<Longrightarrow> \<bar>rnd fp x - x\<bar> \<le> \<bar>x\<bar> / 10 ^ 9"
  by (simp add: accurate_def)

lemma accurate_int: "accurate fp \<Longrightarrow> \<bar>k\<bar> \<le> 2 ^ 53 \<Longrightarrow> rnd fp (of_int k) = of_int k"
  by (simp add: accurate_def)

lemma rnd_one: "accurate fp \<Longrightarrow> rnd fp 1 = 1"
  using accurate_int[of fp 1] by simp

lemma rnd_zero: "accurate fp \<Longrightarrow> rnd fp 0 = 0"
  using accurate_rnd[of fp 0] by simp

lemma rnd_iv:
  assumes "accurate fp" "iv lo hi x" "- 10 \<le> lo" "hi \<le> 10"
  shows "iv (lo - 1 / 100000000) (hi + 1 / 100000000) (rnd fp x)"
proof -
  have "\<bar>x\<bar> \<le> 10" using assms(2-4) unfolding iv_def by linarith
  then have "\<bar>x\<bar> / 10 ^ 9 \<le> 1 / 100000000" by simp
  with accurate_rnd[OF assms(1), of x] have "\<bar>rnd fp x - x\<bar> \<le> 1 / 100000000" by linarith
  with assms(2) show ?thesis unfolding iv_def by linarith
qed

lemma lit_iv:
  assumes "accurate fp" "- 10 \<le> c" "c \<le> 10"
  shows "iv (c - 1 / 100000000) (c + 1 / 100000000) (lit fp c)"
  unfolding lit_def using rnd_iv[OF assms(1), of c c c] assms(2,3) by (simp add: iv_def)

lemma mult_iv:
  assumes "iv a1 a2 x" "iv b1 b2 y" "0 \<le> a1" "0 \<le> b1"
  shows "iv (a1 * b1) (a2 * b2) (x * y)"
  using assms by (auto simp: iv_def intro: mult_mono)

lemma fmul_lit_iv:
  assumes "accurate fp" "iv x1 x2 x" "0 \<le> x1" "x2 \<le> 2" "1 / 100000000 \<le> c" "c \<le> 3"
  shows "iv ((c - 1 / 100000000) * x1 - 1 / 100000000) ((c + 1 / 100000000) * x2 + 1 / 100000000)
           (fmul fp (lit fp c) x)"
proof -
  have l: "iv (c - 1 / 100000000) (c + 1 / 100000000) (lit fp c)"
    using assms by (intro lit_iv) simp_all
  have m: "iv ((c - 1 / 100000000) * x1) ((c + 1 / 100000000) * x2) (lit fp c * x)"
    using assms by (intro mult_iv[OF l assms(2)]) simp_all
  have "(c + 1 / 100000000) * x2 \<le> (3 + 1 / 100000000) * 2"
    using assms m by (intro mult_mono) (auto simp: iv_def)
  then have hi: "(c + 1 / 100000000) * x2 \<le> 10" by simp
  have "0 \<le> (c - 1 / 100000000) * x1" using assms by (intro mult_nonneg_nonneg) simp_all
  then have lo: "- 10 \<le> (c - 1 / 100000000) * x1" by linarith
  show ?thesis unfolding fmul_def by (rule rnd_iv[OF assms(1) m lo hi])
qed

lemma fadd_iv:
  assumes "accurate fp" "iv p1 p2 p" "iv q1 q2 q" "- 10 \<le> p1 + q1" "p2 + q2 \<le> 10"
  shows "iv (p1 + q1 - 1 / 100000000) (p2 + q2 + 1 / 100000000) (fadd fp p q)"
proof -
  have "iv (p1 + q1) (p2 + q2) (p + q)" using assms(2,3) unfolding iv_def by linarith
  then show ?thesis unfolding fadd_def using assms by (intro rnd_iv) simp_all
qed

lemma fsub_iv:
  assumes "accurate fp" "iv p1 p2 p" "iv q1 q2 q" "- 10 \<le> p1 - q2" "p2 - q1 \<le> 10"
  shows "iv (p1 - q2 - 1 / 100000000) (p2 - q1 + 1 / 100000000) (fsub fp p q)"
proof -
  have "iv (p1 - q2) (p2 - q1) (p - q)" using assms(2,3) unfolding iv_def by linarith
  then show ?thesis unfolding fsub_def using assms by (intro rnd_iv) simp_all
qed

lemma term_iv:
  assumes "accurate fp" "iv x1 x2 x" "0 \<le> x1" "x2 \<le> 11 / 10" "1 / 100000000 \<le> c" "c \<le> 3"
  shows "iv ((c - 1 / 100000000) * x1 - 1 / 100000000) ((c + 1 / 100000000) * x2 + 1 / 100000000)
           (fmul fp (lit fp c) x)"
    and "- 1 / 100000000 \<le> (c - 1 / 100000000) * x1 - 1 / 100000000"
    and "(c + 1 / 100000000) * x2 + 1 / 100000000 \<le> 331 / 100"
proof -
  show "iv ((c - 1 / 100000000) * x1 - 1 / 100000000) ((c + 1 / 100000000) * x2 + 1 / 100000000)
           (fmul fp (lit fp c) x)"
    using assms by (intro fmul_lit_iv) simp_all
  have "0 \<le> (c - 1 / 100000000) * x1" using assms by (intro mult_nonneg_nonneg) simp_all
  then show "- 1 / 100000000 \<le> (c - 1 / 100000000) * x1 - 1 / 100000000" by simp
  have "x1 \<le> x2" using assms(2) unfolding iv_def by linarith
  then have "0 \<le> x2" using assms(3) by linarith
  then have "(c + 1 / 100000000) * x2 \<le> (3 + 1 / 100000000) * (11 / 10)"
    using assms by (intro mult_mono) simp_all
  then show "(c + 1 / 100000000) * x2 + 1 / 100000000 \<le> 331 / 100" by simp
qed

lemma row_pp:
  assumes "accurate fp" "iv x1 x2 x" "iv y1 y2 y" "iv z1 z2 z"
    "0 \<le> x1" "0 \<le> y1" "0 \<le> z1" "x2 \<le> 11 / 10" "y2 \<le> 11 / 10" "z2 \<le> 11 / 10"
    "1 / 100000000 \<le> c1" "c1 \<le> 3" "1 / 100000000 \<le> c2" "c2 \<le> 3" "1 / 100000000 \<le> c3" "c3 \<le> 3"
  shows "iv ((c1 - 1 / 100000000) * x1 + (c2 - 1 / 100000000) * y1 + (c3 - 1 / 100000000) * z1 - 5 / 100000000)
            ((c1 + 1 / 100000000) * x2 + (c2 + 1 / 100000000) * y2 + (c3 + 1 / 100000000) * z2 + 5 / 100000000)
            (fadd fp (fadd fp (fmul fp (lit fp c1) x) (fmul fp (lit fp c2) y)) (fmul fp (lit fp c3) z))"
proof -
  note a = term_iv[OF assms(1,2,5,8,11,12)]
  note b = term_iv[OF assms(1,3,6,9,13,14)]
  note c = term_iv[OF assms(1,4,7,10,15,16)]
  have s: "iv ((c1 - 1 / 100000000) * x1 - 1 / 100000000 + ((c2 - 1 / 100000000) * y1 - 1 / 100000000) - 1 / 100000000)
              ((c1 + 1 / 100000000) * x2 + 1 / 100000000 + ((c2 + 1 / 100000000) * y2 + 1 / 100000000) + 1 / 100000000)
              (fadd fp (fmul fp (lit fp c1) x) (fmul fp (lit fp c2) y))"
    using a(2,3) b(2,3) by (intro fadd_iv[OF assms(1) a(1) b(1)]) linarith+
  have t: "iv ((c1 - 1 / 100000000) * x1 - 1 / 100000000 + ((c2 - 1 / 100000000) * y1 - 1 / 100000000) - 1 / 100000000
               + ((c3 - 1 / 100000000) * z1 - 1 / 100000000) - 1 / 100000000)
              ((c1 + 1 / 100000000) * x2 + 1 / 100000000 + ((c2 + 1 / 100000000) * y2 + 1 / 100000000) + 1 / 100000000
               + ((c3 + 1 / 100000000) * z2 + 1 / 100000000) + 1 / 100000000)
              (fadd fp (fadd fp (fmul fp (lit fp c1) x) (fmul fp (lit fp c2) y)) (fmul fp (lit fp c3) z))"
    using a(2,3) b(2,3) c(2,3) by (intro fadd_iv[OF assms(1) s c(1)]) linarith+
  then show ?thesis unfolding iv_def by linarith
qed

lemma row_pm:
  assumes "accurate fp" "iv x1 x2 x" "iv y1 y2 y" "iv z1 z2 z"
    "0 \<le> x1" "0 \<le> y1" "0 \<le> z1" "x2 \<le> 11 / 10" "y2 \<le> 11 / 10" "z2 \<le> 11 / 10"
    "1 / 100000000 \<le> c1" "c1 \<le> 3" "1 / 100000000 \<le> c2" "c2 \<le> 3" "1 / 100000000 \<le> c3" "c3 \<le> 3"
  shows "iv ((c1 - 1 / 100000000) * x1 + (c2 - 1 / 100000000) * y1 - (c3 + 1 / 100000000) * z2 - 5 / 100000000)
            ((c1 + 1 / 100000000) * x2 + (c2 + 1 / 100000000) * y2 - (c3 - 1 / 100000000) * z1 + 5 / 100000000)
            (fsub fp (fadd fp (fmul fp (lit fp c1) x) (fmul fp (lit fp c2) y)) (fmul fp (lit fp c3) z))"
proof -
  note a = term_iv[OF assms(1,2,5,8,11,12)]
  note b = term_iv[OF assms(1,3,6,9,13,14)]
  note c = term_iv[OF assms(1,4,7,10,15,16)]
  have s: "iv ((c1 - 1 / 100000000) * x1 - 1 / 100000000 + ((c2 - 1 / 100000000) * y1 - 1 / 100000000) - 1 / 100000000)
              ((c1 + 1 / 100000000) * x2 + 1 / 100000000 + ((c2 + 1 / 100000000) * y2 + 1 / 100000000) + 1 / 100000000)
              (fadd fp (fmul fp (lit fp c1) x) (fmul fp (lit fp c2) y))"
    using a(2,3) b(2,3) by (intro fadd_iv[OF assms(1) a(1) b(1)]) linarith+
  have t: "iv ((c1 - 1 / 100000000) * x1 - 1 / 100000000 + ((c2 - 1 / 100000000) * y1 - 1 / 100000000) - 1 / 100000000
               - ((c3 + 1 / 100000000) * z2 + 1 / 100000000) - 1 / 100000000)
              ((c1 + 1 / 100000000) * x2 + 1 / 100000000 + ((c2 + 1 / 100000000) * y2 + 1 / 100000000) + 1 / 100000000
               - ((c3 - 1 / 100000000) * z1 - 1 / 100000000) + 1 / 100000000)
              (fsub fp (fadd fp (fmul fp (lit fp c1) x) (fmul fp (lit fp c2) y)) (fmul fp (lit fp c3) z))"
    using a(2,3) b(2,3) c(2,3) by (intro fsub_iv[OF assms(1) s c(1)]) linarith+
  then show ?thesis unfolding iv_def by linarith
qed

lemma row_mp:
  assumes "accurate fp" "iv x1 x2 x" "iv y1 y2 y" "iv z1 z2 z"
    "0 \<le> x1" "0 \<le> y1" "0 \<le> z1" "x2 \<le> 11 / 10" "y2 \<le> 11 / 10" "z2 \<le> 11 / 10"
    "1 / 100000000 \<le> c1" "c1 \<le> 3" "1 / 100000000 \<le> c2" "c2 \<le> 3" "1 / 100000000 \<le> c3" "c3 \<le> 3"
  shows "iv ((c1 - 1 / 100000000) * x1 - (c2 + 1 / 100000000) * y2 + (c3 - 1 / 100000000) * z1 - 5 / 100000000)
            ((c1 + 1 / 100000000) * x2 - (c2 - 1 / 100000000) * y1 + (c3 + 1 / 100000000) * z2 + 5 / 100000000)
            (fadd fp (fsub fp (fmul fp (lit fp c1) x) (fmul fp (lit fp c2) y)) (fmul fp (lit fp c3) z))"
proof -
  note a = term_iv[OF assms(1,2,5,8,11,12)]
  note b = term_iv[OF assms(1,3,6,9,13,14)]
  note c = term_iv[OF assms(1,4,7,10,15,16)]
  have s: "iv ((c1 - 1 / 100000000) * x1 - 1 / 100000000 - ((c2 + 1 / 100000000) * y2 + 1 / 100000000) - 1 / 100000000)
              ((c1 + 1 / 100000000) * x2 + 1 / 100000000 - ((c2 - 1 / 100000000) * y1 - 1 / 100000000) + 1 / 100000000)
              (fsub fp (fmul fp (lit fp c1) x) (fmul fp (lit fp c2) y))"
    using a(2,3) b(2,3) by (intro fsub_iv[OF assms(1) a(1) b(1)]) linarith+
  have t: "iv ((c1 - 1 / 100000000) * x1 - 1 / 100000000 - ((c2 + 1 / 100000000) * y2 + 1 / 100000000) - 1 / 100000000
               + ((c3 - 1 / 100000000) * z1 - 1 / 100000000) - 1 / 100000000)
              ((c1 + 1 / 100000000) * x2 + 1 / 100000000 - ((c2 - 1 / 100000000) * y1 - 1 / 100000000) + 1 / 100000000
               + ((c3 + 1 / 100000000) * z2 + 1 / 100000000) + 1 / 100000000)
              (fadd fp (fsub fp (fmul fp (lit fp c1) x) (fmul fp (lit fp c2) y)) (fmul fp (lit fp c3) z))"
    using a(2,3) b(2,3) c(2,3) by (intro fadd_iv[OF assms(1) s c(1)]) linarith+
  then show ?thesis unfolding iv_def by linarith
qed

lemma iv_weaken: "iv lo hi v \<Longrightarrow> lo' \<le> lo \<Longrightarrow> hi \<le> hi' \<Longrightarrow> iv lo' hi' v"
  unfolding iv_def by linarith

lemma rel_bounds:
  fixes m v :: real
  assumes "\<bar>m - v\<bar> \<le> v / 10 ^ 9"
  shows "v * (1 - 1 / 1000000000) \<le> m" and "m \<le> v * (1 + 1 / 1000000000)"
proof -
  have h: "\<bar>m - v\<bar> \<le> v / 1000000000" using assms by simp
  have a: "v * (1 - 1 / 1000000000) = v - v / 1000000000" by (simp add: algebra_simps)
  have b: "v * (1 + 1 / 1000000000) = v + v / 1000000000" by (simp add: algebra_simps)
  show "v * (1 - 1 / 1000000000) \<le> m" unfolding a using h by linarith
  show "m \<le> v * (1 + 1 / 1000000000)" unfolding b using h by linarith
qed

lemma rnd_nonneg:
  assumes "accurate fp" "0 \<le> x"
  shows "x * (1 - 1 / 1000000000) \<le> rnd fp x" and "rnd fp x \<le> x * (1 + 1 / 1000000000)"
proof -
  have h: "\<bar>rnd fp x - x\<bar> \<le> x / 10 ^ 9"
    using accurate_rnd[OF assms(1), of x] assms(2) by simp
  show "x * (1 - 1 / 1000000000) \<le> rnd fp x" by (rule rel_bounds(1)[OF h])
  show "rnd fp x \<le> x * (1 + 1 / 1000000000)" by (rule rel_bounds(2)[OF h])
qed

lemma div_iv:
  assumes "iv a1 a2 x" "iv b1 b2 y" "0 \<le> a1" "0 < b1"
  shows "iv (a1 / b2) (a2 / b1) (x / y)"
  using assms unfolding iv_def by (auto intro!: frac_le)

lemma powr_near_one:
  fixes qlo q qhi y :: real
  assumes "0 < qlo" "qlo \<le> q" "q \<le> qhi" "qlo \<le> 1" "1 \<le> qhi" "0 \<le> y" "y \<le> 3"
  shows "qlo ^ 3 \<le> q powr y" and "q powr y \<le> qhi ^ 3"
proof -
  have q0: "0 < q" using assms by linarith
  have cube: "q powr 3 = q ^ 3" using q0 by (simp add: powr_numeral)
  have lo3: "qlo ^ 3 \<le> q ^ 3" using assms by (intro power_mono) simp_all
  have hi3: "q ^ 3 \<le> qhi ^ 3" using assms q0 by (intro power_mono) simp_all
  have l1: "qlo ^ 3 \<le> 1" using assms by (intro power_le_one) simp_all
  have h1: "1 \<le> qhi ^ 3" using assms by (intro one_le_power) simp_all
  show "qlo ^ 3 \<le> q powr y"
  proof (cases "1 \<le> q")
    case True
    then have "1 \<le> q powr y" using assms by (intro ge_one_powr_ge_zero) simp_all
    with l1 show ?thesis by linarith
  next
    case False
    then have "q powr 3 \<le> q powr y" using assms q0 by (intro powr_mono') simp_all
    with cube lo3 show ?thesis by linarith
  qed
  show "q powr y \<le> qhi ^ 3"
  proof (cases "1 \<le> q")
    case True
    then have "q powr y \<le> q powr 3" using assms by (intro powr_mono) simp_all
    with cube hi3 show ?thesis by linarith
  next
    case False
    then have "q powr y \<le> 1" using assms q0 by (intro powr_le1) simp_all
    with h1 show ?thesis by linarith
  qed
qed

lemma srgbToLinear_one:
  assumes acc: "accurate fp"
  shows "iv 0.999999882 1.000000119 (srgbToLinear fp 1)"
proof -
  have t: "iv 0.04044999 0.04045001 (lit fp 0.04045)"
    by (rule iv_weaken[OF lit_iv[OF acc]]) simp_all
  then have br: "\<not> 1 \<le> lit fp 0.04045" by (simp add: iv_def)
  have c1: "iv 0.05499999 0.05500001 (lit fp 0.055)"
    by (rule iv_weaken[OF lit_iv[OF acc]]) simp_all
  have one: "iv 1 1 (1::real)" by (simp add: iv_def)
  have s1: "iv 1.05499998 1.05500002 (fadd fp 1 (lit fp 0.055))"
    by (rule iv_weaken[OF fadd_iv[OF acc one c1]]) simp_all
  have c2: "iv 1.05499999 1.05500001 (lit fp 1.055)"
    by (rule iv_weaken[OF lit_iv[OF acc]]) simp_all
  have d: "iv (1.05499998 / 1.05500001) (1.05500002 / 1.05499999)
             (fadd fp 1 (lit fp 0.055) / lit fp 1.055)"
    by (rule div_iv[OF s1 c2]) simp_all
  have q: "iv 0.999999961 1.000000039 (fdiv fp (fadd fp 1 (lit fp 0.055)) (lit fp 1.055))"
    unfolding fdiv_def by (rule iv_weaken[OF rnd_iv[OF acc d]]) simp_all
  have y: "iv 2.39999999 2.40000001 (lit fp 2.4)"
    by (rule iv_weaken[OF lit_iv[OF acc]]) simp_all
  let ?q = "fdiv fp (fadd fp 1 (lit fp 0.055)) (lit fp 1.055)"
  let ?y = "lit fp 2.4"
  have q0: "0 < ?q" using q by (simp add: iv_def)
  have qb: "0.999999961 \<le> ?q" "?q \<le> 1.000000039" using q by (simp_all add: iv_def)
  have yb: "0 \<le> ?y" "?y \<le> 3" using y by (simp_all add: iv_def)
  have p: "0.999999961 ^ 3 \<le> ?q powr ?y" "?q powr ?y \<le> 1.000000039 ^ 3"
    by (rule powr_near_one[OF _ qb _ _ yb]; simp)+
  have "\<bar>mathPow fp ?q ?y - ?q powr ?y\<bar> \<le> (?q powr ?y) / 10 ^ 9"
    using acc q0 by (simp add: accurate_def)
  then have "(?q powr ?y) * (1 - 1 / 1000000000) \<le> mathPow fp ?q ?y"
    and "mathPow fp ?q ?y \<le> (?q powr ?y) * (1 + 1 / 1000000000)"
    by (rule rel_bounds)+
  moreover have "0.999999961 ^ 3 * (1 - 1 / 1000000000) \<le> (?q powr ?y) * (1 - 1 / 1000000000)"
    using p(1) by (intro mult_right_mono) simp_all
  moreover have "(?q powr ?y) * (1 + 1 / 1000000000) \<le> 1.000000039 ^ 3 * (1 + 1 / 1000000000)"
    using p(2) by (intro mult_right_mono) simp_all
  moreover have "(0.999999882::real) \<le> 0.999999961 ^ 3 * (1 - 1 / 1000000000)"
    by (simp add: power3_eq_cube)
  moreover have "1.000000039 ^ 3 * (1 + 1 / 1000000000) \<le> (1.000000119::real)"
    by (simp add: power3_eq_cube)
  ultimately have "iv 0.999999882 1.000000119 (mathPow fp ?q ?y)"
    unfolding iv_def by (simp; linarith)
  then show ?thesis unfolding srgbToLinear_def using br by simp
qed

lemma xyz_white:
  assumes acc: "accurate fp" and lr: "iv 0.999999882 1.000000119 lr"
  shows "\<exists>x y z. linearRGBToXYZ fp lr lr lr = (x, y, z)
           \<and> iv 0.950469807 0.950470194 x
           \<and> iv 0.999999901 1.0000003 y
           \<and> iv 1.088829791 1.08883021 z"
proof -
  have x: "iv 0.950469807 0.950470194
      (fadd fp (fadd fp (fmul fp (lit fp 0.4124564) lr) (fmul fp (lit fp 0.3575761) lr))
         (fmul fp (lit fp 0.1804375) lr))"
    by (rule iv_weaken[OF row_pp[OF acc lr lr lr]]) simp_all
  have y: "iv 0.999999901 1.0000003
      (fadd fp (fadd fp (fmul fp (lit fp 0.2126729) lr) (fmul fp (lit fp 0.7151522) lr))
         (fmul fp (lit fp 0.0721750) lr))"
    by (rule iv_weaken[OF row_pp[OF acc lr lr lr]]) simp_all
  have z: "iv 1.088829791 1.08883021
      (fadd fp (fadd fp (fmul fp (lit fp 0.0193339) lr) (fmul fp (lit fp 0.1191920) lr))
         (fmul fp (lit fp 0.9503041) lr))"
    by (rule iv_weaken[OF row_pp[OF acc lr lr lr]]) simp_all
  show ?thesis unfolding linearRGBToXYZ_def Let_def using x y z by blast
qed

lemma cbrt_iv:
  assumes acc: "accurate fp" and v: "iv lo hi v"
    and c: "0 < clo" "clo ^ 3 \<le> lo" "hi \<le> chi ^ 3" "0 < chi"
  shows "iv (clo * (1 - 1 / 1000000000)) (chi * (1 + 1 / 1000000000)) (mathCbrt fp v)"
proof -
  have "root 3 (clo ^ 3) \<le> root 3 v"
    using v c unfolding iv_def by (intro real_root_le_mono) simp_all
  then have lo: "clo \<le> root 3 v" using c(1) by (simp add: real_root_power_cancel)
  have "root 3 v \<le> root 3 (chi ^ 3)"
    using v c unfolding iv_def by (intro real_root_le_mono) simp_all
  then have hi: "root 3 v \<le> chi" using c(4) by (simp add: real_root_power_cancel)
  have pos: "0 \<le> root 3 v" using lo c(1) by linarith
  have "\<bar>mathCbrt fp v - root 3 v\<bar> \<le> \<bar>root 3 v\<bar> / 10 ^ 9"
    using acc by (simp add: accurate_def)
  then have "\<bar>mathCbrt fp v - root 3 v\<bar> \<le> root 3 v / 10 ^ 9" using pos by simp
  then have b: "root 3 v * (1 - 1 / 1000000000) \<le> mathCbrt fp v"
    "mathCbrt fp v \<le> root 3 v * (1 + 1 / 1000000000)"
    by (rule rel_bounds)+
  have "clo * (1 - 1 / 1000000000) \<le> root 3 v * (1 - 1 / 1000000000)"
    using lo by (intro mult_right_mono) simp_all
  moreover have "root 3 v * (1 + 1 / 1000000000) \<le> chi * (1 + 1 / 1000000000)"
    using hi by (intro mult_right_mono) simp_all
  ultimately show ?thesis using b unfolding iv_def by linarith
qed

lemma lab_white:
  assumes acc: "accurate fp"
    and x: "iv 0.950469807 0.950470194 x"
    and y: "iv 0.999999901 1.0000003 y"
    and z: "iv 1.088829791 1.08883021 z"
  shows "\<exists>L a b. xyzToOKLab fp x y z = (L, a, b)
           \<and> iv 0.999999637 1.000000032 L
           \<and> iv (- 0.000010787) (- 0.000009467) a
           \<and> iv (- 0.000086352) (- 0.000085836) b"
proof -
  let ?l0 = "fsub fp (fadd fp (fmul fp (lit fp 0.8189330101) x) (fmul fp (lit fp 0.3618667424) y))
                 (fmul fp (lit fp 0.1288597137) z)"
  let ?m0 = "fadd fp (fadd fp (fmul fp (lit fp 0.0329845436) x) (fmul fp (lit fp 0.9293118715) y))
                 (fmul fp (lit fp 0.0361456387) z)"
  let ?s0 = "fadd fp (fadd fp (fmul fp (lit fp 0.0482003018) x) (fmul fp (lit fp 0.2643662691) y))
                 (fmul fp (lit fp 0.6338517070) z)"
  have l0: "iv 0.999931377 0.999932054 ?l0"
    by (rule iv_weaken[OF row_pm[OF acc x y z]]) simp_all
  have m0: "iv 1.00001896 1.00001952 ?m0"
    by (rule iv_weaken[OF row_pp[OF acc x y z]]) simp_all
  have s0: "iv 1.000335715 1.000336267 ?s0"
    by (rule iv_weaken[OF row_pp[OF acc x y z]]) simp_all
  have l: "iv 0.999977109 0.999977371 (mathCbrt fp ?l0)"
    by (rule iv_weaken[OF cbrt_iv[OF acc l0, where clo="0.99997711" and chi="0.99997737"]])
       (simp_all add: power3_eq_cube)
  have m: "iv 1.000006298 1.000006522 (mathCbrt fp ?m0)"
    by (rule iv_weaken[OF cbrt_iv[OF acc m0, where clo="1.0000063" and chi="1.00000652"]])
       (simp_all add: power3_eq_cube)
  have s: "iv 1.000111878 1.000112092 (mathCbrt fp ?s0)"
    by (rule iv_weaken[OF cbrt_iv[OF acc s0, where clo="1.00011188" and chi="1.00011209"]])
       (simp_all add: power3_eq_cube)
  have a: "iv (- 0.000010787) (- 0.000009467)
      (fadd fp (fsub fp (fmul fp (lit fp 1.9779984951) (mathCbrt fp ?l0))
                        (fmul fp (lit fp 2.4285922050) (mathCbrt fp ?m0)))
               (fmul fp (lit fp 0.4505937099) (mathCbrt fp ?s0)))"
    by (rule iv_weaken[OF row_mp[OF acc l m s]]) simp_all
  have b: "iv (- 0.000086352) (- 0.000085836)
      (fsub fp (fadd fp (fmul fp (lit fp 0.0259040371) (mathCbrt fp ?l0))
                        (fmul fp (lit fp 0.7827717662) (mathCbrt fp ?m0)))
               (fmul fp (lit fp 0.8086757660) (mathCbrt fp ?s0)))"
    by (rule iv_weaken[OF row_pm[OF acc l m s]]) simp_all
  have L: "iv 0.999999637 1.000000032
      (fsub fp (fadd fp (fmul fp (lit fp 0.2104542553) (mathCbrt fp ?l0))
                        (fmul fp (lit fp 0.7936177850) (mathCbrt fp ?m0)))
               (fmul fp (lit fp 0.0040720468) (mathCbrt fp ?s0)))"
    by (rule iv_weaken[OF row_pm[OF acc l m s]]) simp_all
  show ?thesis unfolding xyzToOKLab_def Let_def using L a b by blast
qed

lemma rel_nonneg:
  fixes m v :: real
  assumes "0 \<le> v" "v * (1 - 1 / 1000000000) \<le> m"
  shows "0 \<le> m"
proof -
  have "0 \<le> v * (1 - 1 / 1000000000)" using assms(1) by (intro mult_nonneg_nonneg) simp_all
  with assms(2) show ?thesis by linarith
qed

lemma rnd_ge0: "accurate fp \<Longrightarrow> 0 \<le> x \<Longrightarrow> 0 \<le> rnd fp x"
  using rel_nonneg[OF _ rnd_nonneg(1)] by blast

lemma square_bound:
  fixes a A :: real
  assumes "- A \<le> a" "a \<le> 0"
  shows "0 \<le> a * a" and "a * a \<le> A * A"
proof -
  show "0 \<le> a * a" by simp
  have "(- a) * (- a) \<le> A * A" using assms by (intro mult_mono) simp_all
  then show "a * a \<le> A * A" by simp
qed

lemma chroma_white:
  assumes acc: "accurate fp"
    and a: "iv (- 0.000010787) (- 0.000009467) a"
    and b: "iv (- 0.000086352) (- 0.000085836) b"
  shows "\<exists>C H. oklabToOKLCH fp L a b = (L, C, H) \<and> 0 \<le> C \<and> C \<le> 1 / 10000"
proof -
  have a': "- 0.000010787 \<le> a" "a \<le> 0" using a by (simp_all add: iv_def)
  have b': "- 0.000086352 \<le> b" "b \<le> 0" using b by (simp_all add: iv_def)
  have aa: "0 \<le> a * a" "a * a \<le> 0.000010787 * 0.000010787"
    by (rule square_bound[OF a'])+
  have bb: "0 \<le> b * b" "b * b \<le> 0.000086352 * 0.000086352"
    by (rule square_bound[OF b'])+
  have paa: "0 \<le> fmul fp a a" "fmul fp a a \<le> 0.000010787 * 0.000010787 * (1 + 1 / 1000000000)"
  proof -
    show "0 \<le> fmul fp a a" unfolding fmul_def by (rule rnd_ge0[OF acc aa(1)])
    have "a * a * (1 + 1 / 1000000000) \<le> 0.000010787 * 0.000010787 * (1 + 1 / 1000000000)"
      using aa(2) by (intro mult_right_mono) simp_all
    with rnd_nonneg(2)[OF acc aa(1)]
    show "fmul fp a a \<le> 0.000010787 * 0.000010787 * (1 + 1 / 1000000000)"
      unfolding fmul_def by linarith
  qed
  have pbb: "0 \<le> fmul fp b b" "fmul fp b b \<le> 0.000086352 * 0.000086352 * (1 + 1 / 1000000000)"
  proof -
    show "0 \<le> fmul fp b b" unfolding fmul_def by (rule rnd_ge0[OF acc bb(1)])
    have "b * b * (1 + 1 / 1000000000) \<le> 0.000086352 * 0.000086352 * (1 + 1 / 1000000000)"
      using bb(2) by (intro mult_right_mono) simp_all
    with rnd_nonneg(2)[OF acc bb(1)]
    show "fmul fp b b \<le> 0.000086352 * 0.000086352 * (1 + 1 / 1000000000)"
      unfolding fmul_def by linarith
  qed
  let ?s = "fmul fp a a + fmul fp b b"
  have s0: "0 \<le> ?s" using paa(1) pbb(1) by linarith
  have s1: "?s \<le> 0.00000000757303" using paa(2) pbb(2) by simp
  have r0: "0 \<le> fadd fp (fmul fp a a) (fmul fp b b)"
    unfolding fadd_def by (rule rnd_ge0[OF acc s0])
  have "?s * (1 + 1 / 1000000000) \<le> 0.00000000757303 * (1 + 1 / 1000000000)"
    using s1 by (intro mult_right_mono) simp_all
  with rnd_nonneg(2)[OF acc s0]
  have r1: "fadd fp (fmul fp a a) (fmul fp b b) \<le> 0.0000872\<^sup>2"
    unfolding fadd_def by (simp add: power2_eq_square)
  let ?r = "fadd fp (fmul fp a a) (fmul fp b b)"
  have q1: "sqrt ?r \<le> 0.0000872" using r1 by (intro real_le_lsqrt) simp_all
  have q0: "0 \<le> sqrt ?r" using r0 by simp
  have "\<bar>mathSqrt fp ?r - sqrt ?r\<bar> \<le> sqrt ?r / 10 ^ 9"
    using acc r0 by (simp add: accurate_def)
  then have m: "sqrt ?r * (1 - 1 / 1000000000) \<le> mathSqrt fp ?r"
    "mathSqrt fp ?r \<le> sqrt ?r * (1 + 1 / 1000000000)"
    by (rule rel_bounds)+
  have c0: "0 \<le> mathSqrt fp ?r" by (rule rel_nonneg[OF q0 m(1)])
  have "sqrt ?r * (1 + 1 / 1000000000) \<le> 0.0000872 * (1 + 1 / 1000000000)"
    using q1 by (intro mult_right_mono) simp_all
  with m(2) have c1: "mathSqrt fp ?r \<le> 1 / 10000" by simp
  show ?thesis unfolding oklabToOKLCH_def Let_def using c0 c1 by simp
qed

lemma rnd_lower:
  assumes "accurate fp" "0 \<le> lo" "lo \<le> x" "lo' \<le> lo * (1 - 1 / 1000000000)"
  shows "lo' \<le> rnd fp x"
proof -
  have x0: "0 \<le> x" using assms(2,3) by linarith
  have "lo * (1 - 1 / 1000000000) \<le> x * (1 - 1 / 1000000000)"
    using assms(3) by (intro mult_right_mono) simp_all
  with rnd_nonneg(1)[OF assms(1) x0] assms(4) show ?thesis by linarith
qed

lemma rnd_upper:
  assumes "accurate fp" "0 \<le> x" "x \<le> hi" "hi * (1 + 1 / 1000000000) \<le> hi'"
  shows "rnd fp x \<le> hi'"
proof -
  have "x * (1 + 1 / 1000000000) \<le> hi * (1 + 1 / 1000000000)"
    using assms(3) by (intro mult_right_mono) simp_all
  with rnd_nonneg(2)[OF assms(1,2)] assms(4) show ?thesis by linarith
qed

lemma pow10_bounds:
  assumes acc: "accurate fp"
  shows "10 ^ n * (1 - 1 / 1000000000) \<le> mathPow fp 10 (real n)"
    and "mathPow fp 10 (real n) \<le> 10 ^ n * (1 + 1 / 1000000000)"
proof -
  have "\<bar>mathPow fp 10 (real n) - 10 powr (real n)\<bar> \<le> (10 powr (real n)) / 10 ^ 9"
    using acc by (simp add: accurate_def)
  then have "\<bar>mathPow fp 10 (real n) - 10 ^ n\<bar> \<le> 10 ^ n / 10 ^ 9"
    by (simp add: powr_realpow)
  then show "10 ^ n * (1 - 1 / 1000000000) \<le> mathPow fp 10 (real n)"
    and "mathPow fp 10 (real n) \<le> 10 ^ n * (1 + 1 / 1000000000)"
    by (rule rel_bounds)+
qed

lemma mathRound_eq:
  assumes "of_int k - 1 / 2 \<le> y" "y < of_int k + 1 / 2"
  shows "mathRound y = of_int k"
proof -
  have "\<lfloor>y + 1 / 2\<rfloor> = k" using assms by (intro floor_unique) linarith+
  then show ?thesis by (simp add: mathRound_def)
qed

lemma mathRound_small:
  assumes "0 \<le> y" "y < 3 / 2"
  shows "mathRound y = 0 \<or> mathRound y = 1"
proof (cases "y < 1 / 2")
  case True
  then have "mathRound y = of_int 0" using assms by (intro mathRound_eq) simp_all
  then show ?thesis by simp
next
  case False
  then have "mathRound y = of_int 1" using assms by (intro mathRound_eq) simp_all
  then show ?thesis by simp
qed

lemma round_achromatic:
  assumes acc: "accurate fp" and c: "0 \<le> C" "C \<le> 1 / 10000"
  shows "round' fp C 4 < lit fp 0.0005"
proof -
  let ?f = "mathPow fp 10 (real (4::nat))"
  have f: "10000 * (1 - 1 / 1000000000) \<le> ?f" "?f \<le> 10000 * (1 + 1 / 1000000000)"
    using pow10_bounds[OF acc, of 4] by simp_all
  have f0: "0 \<le> ?f" "9999 \<le> ?f" using f(1) by simp_all
  have t0: "0 \<le> C * ?f" using c(1) f0(1) by (intro mult_nonneg_nonneg)
  have "C * ?f \<le> (1 / 10000) * (10000 * (1 + 1 / 1000000000))"
    using c f f0 by (intro mult_mono) simp_all
  then have t1: "C * ?f \<le> 1 + 1 / 1000000000" by simp
  have r0: "0 \<le> fmul fp C ?f" unfolding fmul_def by (rule rnd_ge0[OF acc t0])
  have "C * ?f * (1 + 1 / 1000000000) \<le> (1 + 1 / 1000000000) * (1 + 1 / 1000000000)"
    using t1 by (intro mult_right_mono) simp_all
  with rnd_nonneg(2)[OF acc t0] have r1: "fmul fp C ?f < 3 / 2"
    unfolding fmul_def by simp
  from mathRound_small[OF r0 r1] have k: "mathRound (fmul fp C ?f) = 0 \<or> mathRound (fmul fp C ?f) = 1" .
  have l: "0.00049 \<le> lit fp 0.0005"
    using lit_iv[OF acc, of "0.0005"] by (simp add: iv_def)
  have "fdiv fp (mathRound (fmul fp C ?f)) ?f \<le> 0.00011"
  proof (rule disjE[OF k])
    assume "mathRound (fmul fp C ?f) = 0"
    then show ?thesis using rnd_zero[OF acc] by (simp add: fdiv_def)
  next
    assume k1: "mathRound (fmul fp C ?f) = 1"
    have d0: "0 \<le> 1 / ?f" using f0 by simp
    have d1: "1 / ?f \<le> 1 / 9999" using f0 by (intro frac_le) simp_all
    have "1 / ?f * (1 + 1 / 1000000000) \<le> 1 / 9999 * (1 + 1 / 1000000000)"
      using d1 by (intro mult_right_mono) simp_all
    with rnd_nonneg(2)[OF acc d0] have "rnd fp (1 / ?f) \<le> 0.00011" by simp
    then show ?thesis using k1 by (simp add: fdiv_def)
  qed
  then show ?thesis unfolding round'_def Let_def using l by simp
qed

lemma lpct_white:
  assumes acc: "accurate fp" and L: "iv 0.999999637 1.000000032 L"
  shows "round' fp (fmul fp L 100) 2 = fdiv fp 10000 (mathPow fp 10 2)"
proof -
  let ?f = "mathPow fp 10 (real (2::nat))"
  have f: "100 * (1 - 1 / 1000000000) \<le> ?f" "?f \<le> 100 * (1 + 1 / 1000000000)"
    using pow10_bounds[OF acc, of 2] by simp_all
  have f0: "0 \<le> ?f" using f(1) by simp
  have p0: "0 \<le> L * 100" "99.9999637 \<le> L * 100" "L * 100 \<le> 100.0000032"
    using L by (simp_all add: iv_def)
  let ?p = "fmul fp L 100"
  have p1: "99.9999635 \<le> ?p"
    unfolding fmul_def by (rule rnd_lower[OF acc _ p0(2)]) simp_all
  have p2: "?p \<le> 100.0000034"
    unfolding fmul_def by (rule rnd_upper[OF acc p0(1) p0(3)]) simp_all
  have pp: "0 \<le> ?p" using p1 by simp
  have t0: "0 \<le> ?p * ?f" using pp f0 by (intro mult_nonneg_nonneg)
  have "99.9999635 * (100 * (1 - 1 / 1000000000)) \<le> ?p * ?f"
    using p1 f(1) by (intro mult_mono) simp_all
  then have t1: "9999.9963 \<le> ?p * ?f" by simp
  have "?p * ?f \<le> 100.0000034 * (100 * (1 + 1 / 1000000000))"
    using p2 f(2) pp f0 by (intro mult_mono) simp_all
  then have t2: "?p * ?f \<le> 10000.0004" by simp
  have r1: "9999.9962 \<le> rnd fp (?p * ?f)"
    by (rule rnd_lower[OF acc _ t1]) simp_all
  have r2: "rnd fp (?p * ?f) \<le> 10000.0005"
    by (rule rnd_upper[OF acc t0 t2]) simp_all
  have "mathRound (rnd fp (?p * ?f)) = of_int 10000"
    using r1 r2 by (intro mathRound_eq) simp_all
  then show ?thesis unfolding round'_def Let_def fmul_def[of fp ?p] by simp
qed

lemma hexToOklch_parts:
  assumes "parseHex hex0 = Some (r8, g8, b8, a8)"
    and "linearRGBToXYZ fp (srgbToLinear fp (fdiv fp (of_int r8) 255))
           (srgbToLinear fp (fdiv fp (of_int g8) 255))
           (srgbToLinear fp (fdiv fp (of_int b8) 255)) = (x, y, z)"
    and "xyzToOKLab fp x y z = (L, a, bLab)"
    and "oklabToOKLCH fp L a bLab = (Lch, C, H)"
  shows "hexToOklch fp numStr hex0 =
     Some (''oklch('' @ numStr (round' fp (fmul fp Lch 100) 2) @ ''% ''
           @ (if round' fp C 4 < lit fp 0.0005 then ''0'' else numStr (round' fp C 4)) @ '' ''
           @ (if round' fp C 4 < lit fp 0.0005 then ''none'' else numStr (round' fp H 1))
           @ (if fdiv fp (of_int a8) 255 < 1
              then '' / '' @ numStr (round' fp (fdiv fp (of_int a8) 255) 2) else [])
           @ '')'')"
  by (simp add: hexToOklch_def Let_def assms)

lemma parseHex_white: "parseHex ''#FFFFFF'' = Some (255, 255, 255, 255)"
  by (simp add: parseHex_def trim_def isSpaceJs_def startsWith_def channels_def parseInt16_def
      hexDigitVal_def)

lemma fdiv_same: "accurate fp \<Longrightarrow> fdiv fp 255 255 = 1"
  by (simp add: fdiv_def rnd_one)

lemma white_parts:
  assumes acc: "accurate fp" and ph: "parseHex hex0 = Some (255, 255, 255, a8)"
  shows "hexToOklch fp numStr hex0
           = Some (''oklch('' @ numStr (fdiv fp 10000 (mathPow fp 10 2)) @ ''% 0 none''
                   @ (if fdiv fp (of_int a8) 255 < 1
                      then '' / '' @ numStr (round' fp (fdiv fp (of_int a8) 255) 2) else [])
                   @ '')'')"
proof -
  from xyz_white[OF acc srgbToLinear_one[OF acc]] obtain x y z where
    xyz: "linearRGBToXYZ fp (srgbToLinear fp 1) (srgbToLinear fp 1) (srgbToLinear fp 1) = (x, y, z)"
    and b1: "iv 0.950469807 0.950470194 x" "iv 0.999999901 1.0000003 y"
      "iv 1.088829791 1.08883021 z" by blast
  from lab_white[OF acc b1] obtain L a b where
    lab: "xyzToOKLab fp x y z = (L, a, b)"
    and b2: "iv 0.999999637 1.000000032 L" "iv (- 0.000010787) (- 0.000009467) a"
      "iv (- 0.000086352) (- 0.000085836) b" by blast
  from chroma_white[OF acc b2(2,3), of L] obtain C H where
    lch: "oklabToOKLCH fp L a b = (L, C, H)" and b3: "0 \<le> C" "C \<le> 1 / 10000" by blast
  have ach: "round' fp C 4 < lit fp 0.0005" by (rule round_achromatic[OF acc b3])
  have lp: "round' fp (fmul fp L 100) 2 = fdiv fp 10000 (mathPow fp 10 2)"
    by (rule lpct_white[OF acc b2(1)])
  have r: "fdiv fp (of_int 255) 255 = 1" using fdiv_same[OF acc] by simp
  have xyz': "linearRGBToXYZ fp (srgbToLinear fp (fdiv fp (of_int 255) 255))
           (srgbToLinear fp (fdiv fp (of_int 255) 255))
           (srgbToLinear fp (fdiv fp (of_int 255) 255)) = (x, y, z)"
    unfolding r by (rule xyz)
  show ?thesis
    unfolding hexToOklch_parts[OF ph xyz' lab lch] lp
    using ach by simp
qed

lemma accurate_exact: "accurate exactArith"
  by (simp add: accurate_def exactArith_def)

lemma exact_lpct: "fdiv exactArith 10000 (mathPow exactArith 10 2) = 100"
  by (simp add: fdiv_def exactArith_def)

text \<open>
  Claim C7. In every accurate arithmetic the conversion of \<^verbatim>\<open>#FFFFFF\<close> writes the
  chroma as the literal \<^verbatim>\<open>0\<close> and the hue as \<^verbatim>\<open>none\<close>: the chroma of white is at
  most \<open>0.0001\<close>, so its rounding to four decimals is below the threshold
  \<open>0.0005\<close>. The lightness written is \<^verbatim>\<open>10000 / Math.pow(10, 2)\<close>, and there is no
  alpha part.
\<close>

theorem white_is_achromatic:
  assumes "accurate fp"
  shows "hexToOklch fp numStr ''#FFFFFF''
           = Some (''oklch('' @ numStr (fdiv fp 10000 (mathPow fp 10 2)) @ ''% 0 none)'')"
  using white_parts[OF assms parseHex_white, of numStr] fdiv_same[OF assms] by simp

theorem white_is_achromatic_witness:
  "accurate exactArith
   \<and> (\<forall>numStr. hexToOklch exactArith numStr ''#FFFFFF''
                   = Some (''oklch('' @ numStr 100 @ ''% 0 none)''))"
  using white_is_achromatic[OF accurate_exact] accurate_exact by (simp add: exact_lpct)

section \<open>Properties of the alpha part\<close>

lemma hexToOklch_body:
  assumes "parseHex hex0 = Some (r8, g8, b8, a8)"
  shows "hexToOklch fp numStr hex0 =
     Some (''oklch('' @ oklchBody fp numStr r8 g8 b8
           @ (if fdiv fp (of_int a8) 255 < 1
              then '' / '' @ numStr (round' fp (fdiv fp (of_int a8) 255) 2) else [])
           @ '')'')"
  by (simp add: hexToOklch_def oklchBody_def Let_def assms split_def)

lemma hexDigitVal_range: "hexDigitVal c = Some v \<Longrightarrow> 0 \<le> v \<and> v \<le> 15"
  by (auto simp: hexDigitVal_def Let_def split: if_splits)

lemma hexDigits_value:
  assumes "length ds \<le> 2" "\<forall>c \<in> set ds. hexDigitVal c \<noteq> None"
  shows "0 \<le> foldl (\<lambda>n c. 16 * n + the (hexDigitVal c)) 0 ds
       \<and> foldl (\<lambda>n c. 16 * n + the (hexDigitVal c)) 0 ds \<le> 255"
proof -
  consider "ds = []" | c where "ds = [c]" | c d where "ds = [c, d]"
    using assms(1) by (cases ds; cases "tl ds"; cases "tl (tl ds)") auto
  then show ?thesis
  proof cases
    case 1
    then show ?thesis by simp
  next
    case 2
    then obtain v where "hexDigitVal c = Some v" using assms(2) by auto
    with hexDigitVal_range[OF this] 2 show ?thesis by simp
  next
    case 3
    then obtain v w where vw: "hexDigitVal c = Some v" "hexDigitVal d = Some w"
      using assms(2) by auto
    with hexDigitVal_range[OF vw(1)] hexDigitVal_range[OF vw(2)] 3 show ?thesis by simp
  qed
qed

lemma parseInt16_range:
  assumes "length s \<le> 2" "parseInt16 s = Some v"
  shows "- 255 \<le> v \<and> v \<le> 255"
proof -
  define s1 where "s1 = dropWhile isSpaceJs s"
  define s2 where "s2 = (if s1 \<noteq> [] \<and> (hd s1 = CHR ''+'' \<or> hd s1 = CHR ''-'') then tl s1 else s1)"
  define s3 where "s3 = (if take 2 s2 = ''0x'' \<or> take 2 s2 = ''0X'' then drop 2 s2 else s2)"
  define ds where "ds = takeWhile (\<lambda>c. hexDigitVal c \<noteq> None) s3"
  have "length s1 \<le> length s" unfolding s1_def by (rule length_dropWhile_le)
  moreover have "length s2 \<le> length s1" unfolding s2_def by simp
  moreover have "length s3 \<le> length s2" unfolding s3_def by simp
  moreover have "length ds \<le> length s3" unfolding ds_def by (rule length_takeWhile_le)
  ultimately have len: "length ds \<le> 2" using assms(1) by linarith
  have dig: "\<forall>c \<in> set ds. hexDigitVal c \<noteq> None"
    unfolding ds_def by (auto dest: set_takeWhileD)
  from assms(2) have "v = foldl (\<lambda>n c. 16 * n + the (hexDigitVal c)) 0 ds
      \<or> v = - foldl (\<lambda>n c. 16 * n + the (hexDigitVal c)) 0 ds"
    unfolding parseInt16_def Let_def s1_def[symmetric] s2_def[symmetric] s3_def[symmetric]
      ds_def[symmetric]
    by (auto split: if_splits)
  with hexDigits_value[OF len dig] show ?thesis by linarith
qed

lemma parseHex_alpha_range:
  assumes "parseHex hex0 = Some (r8, g8, b8, a8)"
  shows "- 255 \<le> a8 \<and> a8 \<le> 255"
proof -
  have r: "length s \<le> 2 \<Longrightarrow> parseInt16 s = Some a8 \<Longrightarrow> - 255 \<le> a8 \<and> a8 \<le> 255" for s
    by (rule parseInt16_range)
  from assms show ?thesis
    unfolding parseHex_def Let_def channels_def
    by (auto split: if_splits option.splits intro: r dest!: r[rotated])
qed

lemma alpha_below_one:
  assumes acc: "accurate fp" and r: "- 255 \<le> a8" "a8 \<le> 255"
  shows "(fdiv fp (of_int a8) 255 < 1) = (a8 < 255)"
proof (cases "a8 = 255")
  case True
  then show ?thesis using rnd_one[OF acc] by (simp add: fdiv_def)
next
  case False
  then have a: "a8 \<le> 254" using r by linarith
  let ?x = "(of_int a8 :: real) / 255"
  have "(of_int a8 :: real) \<le> 254" using a by simp
  then have x1: "?x \<le> 254 / 255" by simp
  have "- 255 \<le> (of_int a8 :: real)" using r(1) by simp
  then have x0: "- 1 \<le> ?x" by simp
  have "\<bar>?x\<bar> \<le> 1" using x0 x1 by linarith
  then have "\<bar>?x\<bar> / 10 ^ 9 \<le> 1 / 1000000000" by simp
  with accurate_rnd[OF acc, of ?x] have "\<bar>rnd fp ?x - ?x\<bar> \<le> 1 / 1000000000" by linarith
  with x1 have "rnd fp ?x < 1" by linarith
  then show ?thesis using a by (simp add: fdiv_def)
qed

text \<open>
  Claim C8, as the code has it. For every hex color that \<^verbatim>\<open>parseHex\<close> accepts, in every
  accurate arithmetic, the output is the three color components followed by the alpha
  part \<^verbatim>\<open>/ <alpha>\<close> exactly when the alpha channel is below 255, that is when the
  source alpha itself is below 1; the alpha written is the source alpha rounded to two
  decimals. With the alpha channel at 255 there is no alpha part.
\<close>

theorem alpha_suffix:
  assumes "accurate fp" and "parseHex hex0 = Some (r8, g8, b8, a8)"
  shows "hexToOklch fp numStr hex0 =
     Some (''oklch('' @ oklchBody fp numStr r8 g8 b8
           @ (if a8 < 255
              then '' / '' @ numStr (round' fp (fdiv fp (of_int a8) 255) 2) else [])
           @ '')'')"
  using alpha_below_one[OF assms(1)] parseHex_alpha_range[OF assms(2)]
  by (simp add: hexToOklch_body[OF assms(2)])

lemma parseHex_half: "parseHex ''#FFFFFF80'' = Some (255, 255, 255, 128)"
  by (simp add: parseHex_def trim_def isSpaceJs_def startsWith_def channels_def parseInt16_def
      hexDigitVal_def)

lemma parseHex_fe: "parseHex ''#FFFFFFFE'' = Some (255, 255, 255, 254)"
  by (simp add: parseHex_def trim_def isSpaceJs_def startsWith_def channels_def parseInt16_def
      hexDigitVal_def)

lemma exact_round_half: "round' exactArith (fdiv exactArith 128 255) 2 = 1 / 2"
proof -
  have "mathRound (128 / 255 * 100) = of_int 50" by (rule mathRound_eq) simp_all
  then show ?thesis by (simp add: round'_def fdiv_def fmul_def exactArith_def)
qed

lemma exact_round_fe: "round' exactArith (fdiv exactArith 254 255) 2 = 1"
proof -
  have "mathRound (254 / 255 * 100) = of_int 100" by (rule mathRound_eq) simp_all
  then show ?thesis by (simp add: round'_def fdiv_def fmul_def exactArith_def)
qed

theorem alpha_suffix_witness:
  "accurate exactArith \<and> parseHex ''#FFFFFF80'' = Some (255, 255, 255, 128)
   \<and> (\<forall>numStr. hexToOklch exactArith numStr ''#FFFFFF80''
          = Some (''oklch('' @ oklchBody exactArith numStr 255 255 255 @ '' / ''
                  @ numStr (1 / 2) @ '')''))"
  using alpha_suffix[OF accurate_exact parseHex_half] accurate_exact parseHex_half
  by (simp add: exact_round_half)

text \<open>
  The claim C8 as stated fails at the alpha channel 254: the source alpha rounded to two
  decimals is 1, and the output has the alpha part all the same, \<^verbatim>\<open>/ 1\<close>.
\<close>

theorem alpha_suffix_counterexample:
  "(\<forall>numStr. hexToOklch exactArith numStr ''#FFFFFFFE''
          = Some (''oklch('' @ numStr 100 @ ''% 0 none / '' @ numStr 1 @ '')''))
   \<and> round' exactArith (fdiv exactArith 254 255) 2 = 1"
proof -
  have lt: "fdiv exactArith (of_int 254) 255 < 1" by (simp add: fdiv_def exactArith_def)
  have "hexToOklch exactArith numStr ''#FFFFFFFE''
          = Some (''oklch('' @ numStr 100 @ ''% 0 none / '' @ numStr 1 @ '')'')" for numStr
    using white_parts[OF accurate_exact parseHex_fe, of numStr] lt exact_round_fe
    by (simp add: exact_lpct)
  then show ?thesis using exact_round_fe by blast
qed

end
